theory Spec2Isabelle
  imports Complex_Main "HOL-Library.Word" "HOL-Library.Signed_Division"
begin

section \<open>WRPLL divider computation (tools/hsw\_compute\_wrpll.c)\<close>

text \<open>
  The C program computes, for a pixel clock in Hz, the dividers \<open>(r2, n2, p)\<close> of the
  Haswell WRPLL and checks them against a table.  The embedding keeps the machine types
  of the source: \<open>unsigned\<close> is a 32-bit word, \<open>uint64_t\<close> a 64-bit word, and the
  usual arithmetic conversions of C are written as \<open>ucast\<close>.  The parameter
  \<open>int clock\<close> is an integer; the only arithmetic on it is the truncating division
  by 100, whose result is converted to \<open>uint64_t\<close> (modulo \<open>2 ^ 64\<close>).
\<close>

type_synonym u16 = "16 word"
type_synonym u32 = "32 word"
type_synonym u64 = "64 word"

subsection \<open>Constants\<close>

definition LC_FREQ :: nat where "LC_FREQ = 2700"
definition LC_FREQ_2K :: nat where "LC_FREQ_2K = LC_FREQ * 2000"

definition P_MIN :: nat where "P_MIN = 2"
definition P_MAX :: nat where "P_MAX = 64"
definition P_INC :: nat where "P_INC = 2"

definition REF_MIN :: nat where "REF_MIN = 48"
definition REF_MAX :: nat where "REF_MAX = 400"
definition VCO_MIN :: nat where "VCO_MIN = 2400"
definition VCO_MAX :: nat where "VCO_MAX = 4800"

text \<open>\<^verbatim>\<open>#define ABS_DIFF(a, b) ((a > b) ? (a - b) : (b - a))\<close>, used at \<open>uint64_t\<close>.\<close>

definition ABS_DIFF :: "u64 \<Rightarrow> u64 \<Rightarrow> u64" where
  "ABS_DIFF a b = (if a > b then a - b else b - a)"

record wrpll_rnp =
  rnp_p :: u32
  rnp_n2 :: u32
  rnp_r2 :: u32

subsection \<open>Budget selector\<close>

text \<open>The \<^verbatim>\<open>switch (clock)\<close> of \<^verbatim>\<open>wrpll_get_budget_for_freq\<close>, one set per group of case labels.\<close>

definition budget_0_freqs :: "int set" where
  "budget_0_freqs = {25175000, 25200000, 27000000, 27027000, 37762500, 37800000,
     40500000, 40541000, 54000000, 54054000, 59341000, 59400000, 72000000, 74176000,
     74250000, 81000000, 81081000, 89012000, 89100000, 108000000, 108108000, 111264000,
     111375000, 148352000, 148500000, 162000000, 162162000, 222525000, 222750000,
     296703000, 297000000}"

definition budget_1500_freqs :: "int set" where
  "budget_1500_freqs = {233500000, 245250000, 247750000, 253250000, 298000000}"

definition budget_2000_freqs :: "int set" where
  "budget_2000_freqs = {169128000, 169500000, 179500000, 202000000}"

definition budget_4000_freqs :: "int set" where
  "budget_4000_freqs = {256250000, 262500000, 270000000, 272500000, 273750000,
     280750000, 281250000, 286000000, 291750000}"

definition budget_5000_freqs :: "int set" where
  "budget_5000_freqs = {267250000, 268500000}"

definition wrpll_get_budget_for_freq :: "int \<Rightarrow> u32" where
  "wrpll_get_budget_for_freq clock =
     (if clock \<in> budget_0_freqs then 0
      else if clock \<in> budget_1500_freqs then 1500
      else if clock \<in> budget_2000_freqs then 2000
      else if clock \<in> budget_4000_freqs then 4000
      else if clock \<in> budget_5000_freqs then 5000
      else 1000)"

subsection \<open>Best-triplet update\<close>

text \<open>
  The intermediate values of \<^verbatim>\<open>wrpll_update_rnp\<close>, each with the C types of its
  operands: \<open>a\<close> and \<open>b\<close> are \<^verbatim>\<open>freq2k * budget * p * r2\<close> in 64 bits;
  \<open>diff\<close> and \<open>diff_best\<close> are \<^verbatim>\<open>ABS_DIFF((freq2k * p * r2), (LC_FREQ_2K * n2))\<close>,
  where the second product is an \<open>unsigned\<close> (32-bit) product widened afterwards;
  \<open>c\<close> and \<open>d\<close> are \<^verbatim>\<open>1000000 * diff\<close>; the "closer" test multiplies the 32-bit
  product \<^verbatim>\<open>p * r2\<close> with a 64-bit difference; the ratio test
  \<^verbatim>\<open>n2 * r2 * r2\<close> is all 32-bit.
\<close>

definition budget_term :: "u64 \<Rightarrow> u32 \<Rightarrow> u32 \<Rightarrow> u32 \<Rightarrow> u64" where
  "budget_term freq2k budget p r2 = freq2k * ucast budget * ucast p * ucast r2"

definition clock_diff :: "u64 \<Rightarrow> u32 \<Rightarrow> u32 \<Rightarrow> u32 \<Rightarrow> u64" where
  "clock_diff freq2k p r2 n2 =
     ABS_DIFF (freq2k * ucast p * ucast r2) (ucast (of_nat LC_FREQ_2K * n2 :: u32))"

definition scaled_diff :: "u64 \<Rightarrow> u64" where
  "scaled_diff diff = 1000000 * diff"

definition closer_term :: "u32 \<Rightarrow> u32 \<Rightarrow> u64 \<Rightarrow> u64" where
  "closer_term p r2 diff = ucast (p * r2) * diff"

definition ratio_term :: "u32 \<Rightarrow> u32 \<Rightarrow> u32" where
  "ratio_term n2 r2 = n2 * r2 * r2"

definition wrpll_update_rnp ::
    "u64 \<Rightarrow> u32 \<Rightarrow> u32 \<Rightarrow> u32 \<Rightarrow> u32 \<Rightarrow> wrpll_rnp \<Rightarrow> wrpll_rnp" where
  "wrpll_update_rnp freq2k budget r2 n2 p best =
     (let cand = \<lparr>rnp_p = p, rnp_n2 = n2, rnp_r2 = r2\<rparr> in
      if rnp_p best = 0 then cand
      else
        let a = budget_term freq2k budget p r2;
            b = budget_term freq2k budget (rnp_p best) (rnp_r2 best);
            diff = clock_diff freq2k p r2 n2;
            diff_best = clock_diff freq2k (rnp_p best) (rnp_r2 best) (rnp_n2 best);
            c = scaled_diff diff;
            d = scaled_diff diff_best
        in
          if a < c \<and> b < d then
            (if closer_term (rnp_p best) (rnp_r2 best) diff < closer_term p r2 diff_best
             then cand else best)
          else if a \<ge> c \<and> b < d then cand
          else if a \<ge> c \<and> b \<ge> d then
            (if ratio_term n2 (rnp_r2 best) > ratio_term (rnp_n2 best) r2
             then cand else best)
          else best)"

subsection \<open>Divider search\<close>

text \<open>
  The three nested \<^verbatim>\<open>for\<close> loops of \<^verbatim>\<open>wrpll_compute_rnp\<close>.  The counters are
  \<open>unsigned\<close> in C; they stay below 67, 201 and 114, and the bound computations
  \<^verbatim>\<open>VCO_MIN * r2 / LC_FREQ\<close> and \<^verbatim>\<open>VCO_MAX * r2 / LC_FREQ\<close> stay below
  \<open>4800 * 113\<close>, so natural numbers give the same values; each counter is converted to
  a 32-bit word where it is passed on.
\<close>

function p_loop :: "u64 \<Rightarrow> u32 \<Rightarrow> nat \<Rightarrow> nat \<Rightarrow> nat \<Rightarrow> wrpll_rnp \<Rightarrow> wrpll_rnp" where
  "p_loop freq2k budget r2 n2 p best =
     (if p \<le> P_MAX
      then p_loop freq2k budget r2 n2 (p + P_INC)
             (wrpll_update_rnp freq2k budget (of_nat r2) (of_nat n2) (of_nat p) best)
      else best)"
  by pat_completeness auto
termination
  by (relation "measure (\<lambda>(freq2k, budget, r2, n2, p, best). P_MAX + 1 - p)")
     (auto simp: P_MAX_def P_INC_def)

declare p_loop.simps [simp del]

function n2_loop :: "u64 \<Rightarrow> u32 \<Rightarrow> nat \<Rightarrow> nat \<Rightarrow> wrpll_rnp \<Rightarrow> wrpll_rnp" where
  "n2_loop freq2k budget r2 n2 best =
     (if n2 \<le> VCO_MAX * r2 div LC_FREQ
      then n2_loop freq2k budget r2 (n2 + 1) (p_loop freq2k budget r2 n2 P_MIN best)
      else best)"
  by pat_completeness auto
termination
  by (relation "measure (\<lambda>(freq2k, budget, r2, n2, best). VCO_MAX * r2 div LC_FREQ + 1 - n2)")
     auto

declare n2_loop.simps [simp del]

function r2_loop :: "u64 \<Rightarrow> u32 \<Rightarrow> nat \<Rightarrow> wrpll_rnp \<Rightarrow> wrpll_rnp" where
  "r2_loop freq2k budget r2 best =
     (if r2 \<le> LC_FREQ * 2 div REF_MIN
      then r2_loop freq2k budget (r2 + 1)
             (n2_loop freq2k budget r2 (VCO_MIN * r2 div LC_FREQ + 1) best)
      else best)"
  by pat_completeness auto
termination
  by (relation "measure (\<lambda>(freq2k, budget, r2, best). LC_FREQ * 2 div REF_MIN + 1 - r2)")
     auto

declare r2_loop.simps [simp del]

text \<open>
  \<^verbatim>\<open>wrpll_compute_rnp\<close>: the outputs \<^verbatim>\<open>*r2_out\<close>, \<^verbatim>\<open>*n2_out\<close>, \<^verbatim>\<open>*p_out\<close> are
  returned as one record.  \<^verbatim>\<open>clock / 100\<close> truncates towards zero (\<open>sdiv\<close>) and is
  then converted to \<open>uint64_t\<close>.
\<close>

definition wrpll_compute_rnp :: "int \<Rightarrow> wrpll_rnp" where
  "wrpll_compute_rnp clock =
     (let freq2k = (word_of_int (clock sdiv 100) :: u64);
          budget = wrpll_get_budget_for_freq clock
      in if freq2k = 5400000
         then \<lparr>rnp_p = 1, rnp_n2 = 2, rnp_r2 = 2\<rparr>
         else r2_loop freq2k budget (LC_FREQ * 2 div REF_MAX + 1)
                \<lparr>rnp_p = 0, rnp_n2 = 0, rnp_r2 = 0\<rparr>)"


subsection \<open>Reference table and comparison driver\<close>

text \<open>
  \<^verbatim>\<open>struct wrpll_tmds_clock { uint32_t clock; uint16_t p, n2, r2; }\<close>; the initialiser
  \<^verbatim>\<open>{19750000, 38, 25, 18}\<close> is written \<open>TC 19750000 38 25 18\<close>.
\<close>

datatype wrpll_tmds_clock =
  TC (tc_clock: u32) (tc_p: u16) (tc_n2: u16) (tc_r2: u16)

definition wrpll_tmds_clock_table :: "wrpll_tmds_clock list" where
  "wrpll_tmds_clock_table = [
   TC 19750000 38 25 18, TC 20000000 48 32 18, TC 21000000 36 21 15,
   TC 21912000 42 29 17, TC 22000000 36 22 15, TC 23000000 36 23 15,
   TC 23500000 40 40 23, TC 23750000 26 16 14, TC 24000000 36 24 15,
   TC 25000000 36 25 15, TC 25175000 26 40 33, TC 25200000 30 21 15,
   TC 26000000 36 26 15, TC 27000000 30 21 14, TC 27027000 18 100 111,
   TC 27500000 30 29 19, TC 28000000 34 30 17, TC 28320000 26 30 22,
   TC 28322000 32 42 25, TC 28750000 24 23 18, TC 29000000 30 29 18,
   TC 29750000 32 30 17, TC 30000000 30 25 15, TC 30750000 30 41 24,
   TC 31000000 30 31 18, TC 31500000 30 28 16, TC 32000000 30 32 18,
   TC 32500000 28 32 19, TC 33000000 24 22 15, TC 34000000 28 30 17,
   TC 35000000 26 32 19, TC 35500000 24 30 19, TC 36000000 26 26 15,
   TC 36750000 26 46 26, TC 37000000 24 23 14, TC 37762500 22 40 26,
   TC 37800000 20 21 15, TC 38000000 24 27 16, TC 38250000 24 34 20,
   TC 39000000 24 26 15, TC 40000000 24 32 18, TC 40500000 20 21 14,
   TC 40541000 22 147 89, TC 40750000 18 19 14, TC 41000000 16 17 14,
   TC 41500000 22 44 26, TC 41540000 22 44 26, TC 42000000 18 21 15,
   TC 42500000 22 45 26, TC 43000000 20 43 27, TC 43163000 20 24 15,
   TC 44000000 18 22 15, TC 44900000 20 108 65, TC 45000000 20 25 15,
   TC 45250000 20 52 31, TC 46000000 18 23 15, TC 46750000 20 45 26,
   TC 47000000 20 40 23, TC 48000000 18 24 15, TC 49000000 18 49 30,
   TC 49500000 16 22 15, TC 50000000 18 25 15, TC 50500000 18 32 19,
   TC 51000000 18 34 20, TC 52000000 18 26 15, TC 52406000 14 34 25,
   TC 53000000 16 22 14, TC 54000000 16 24 15, TC 54054000 16 173 108,
   TC 54500000 14 24 17, TC 55000000 12 22 18, TC 56000000 14 45 31,
   TC 56250000 16 25 15, TC 56750000 14 25 17, TC 57000000 16 27 16,
   TC 58000000 16 43 25, TC 58250000 16 38 22, TC 58750000 16 40 23,
   TC 59000000 14 26 17, TC 59341000 14 40 26, TC 59400000 16 44 25,
   TC 60000000 16 32 18, TC 60500000 12 39 29, TC 61000000 14 49 31,
   TC 62000000 14 37 23, TC 62250000 14 42 26, TC 63000000 12 21 15,
   TC 63500000 14 28 17, TC 64000000 12 27 19, TC 65000000 14 32 19,
   TC 65250000 12 29 20, TC 65500000 12 32 22, TC 66000000 12 22 15,
   TC 66667000 14 38 22, TC 66750000 10 21 17, TC 67000000 14 33 19,
   TC 67750000 14 58 33, TC 68000000 14 30 17, TC 68179000 14 46 26,
   TC 68250000 14 46 26, TC 69000000 12 23 15, TC 70000000 12 28 18,
   TC 71000000 12 30 19, TC 72000000 12 24 15, TC 73000000 10 23 17,
   TC 74000000 12 23 14, TC 74176000 8 100 91, TC 74250000 10 22 16,
   TC 74481000 12 43 26, TC 74500000 10 29 21, TC 75000000 12 25 15,
   TC 75250000 10 39 28, TC 76000000 12 27 16, TC 77000000 12 53 31,
   TC 78000000 12 26 15, TC 78750000 12 28 16, TC 79000000 10 38 26,
   TC 79500000 10 28 19, TC 80000000 12 32 18, TC 81000000 10 21 14,
   TC 81081000 6 100 111, TC 81624000 8 29 24, TC 82000000 8 17 14,
   TC 83000000 10 40 26, TC 83950000 10 28 18, TC 84000000 10 28 18,
   TC 84750000 6 16 17, TC 85000000 6 17 18, TC 85250000 10 30 19,
   TC 85750000 10 27 17, TC 86000000 10 43 27, TC 87000000 10 29 18,
   TC 88000000 10 44 27, TC 88500000 10 41 25, TC 89000000 10 28 17,
   TC 89012000 6 90 91, TC 89100000 10 33 20, TC 90000000 10 25 15,
   TC 91000000 10 32 19, TC 92000000 10 46 27, TC 93000000 10 31 18,
   TC 94000000 10 40 23, TC 94500000 10 28 16, TC 95000000 10 44 25,
   TC 95654000 10 39 22, TC 95750000 10 39 22, TC 96000000 10 32 18,
   TC 97000000 8 23 16, TC 97750000 8 42 29, TC 98000000 8 45 31,
   TC 99000000 8 22 15, TC 99750000 8 34 23, TC 100000000 6 20 18,
   TC 100500000 6 19 17, TC 101000000 6 37 33, TC 101250000 8 21 14,
   TC 102000000 6 17 15, TC 102250000 6 25 22, TC 103000000 8 29 19,
   TC 104000000 8 37 24, TC 105000000 8 28 18, TC 106000000 8 22 14,
   TC 107000000 8 46 29, TC 107214000 8 27 17, TC 108000000 8 24 15,
   TC 108108000 8 173 108, TC 109000000 6 23 19, TC 110000000 6 22 18,
   TC 110013000 6 22 18, TC 110250000 8 49 30, TC 110500000 8 36 22,
   TC 111000000 8 23 14, TC 111264000 8 150 91, TC 111375000 8 33 20,
   TC 112000000 8 63 38, TC 112500000 8 25 15, TC 113100000 8 57 34,
   TC 113309000 8 42 25, TC 114000000 8 27 16, TC 115000000 6 23 18,
   TC 116000000 8 43 25, TC 117000000 8 26 15, TC 117500000 8 40 23,
   TC 118000000 6 38 29, TC 119000000 8 30 17, TC 119500000 8 46 26,
   TC 119651000 8 39 22, TC 120000000 8 32 18, TC 121000000 6 39 29,
   TC 121250000 6 31 23, TC 121750000 6 23 17, TC 122000000 6 42 31,
   TC 122614000 6 30 22, TC 123000000 6 41 30, TC 123379000 6 37 27,
   TC 124000000 6 51 37, TC 125000000 6 25 18, TC 125250000 4 13 14,
   TC 125750000 4 27 29, TC 126000000 6 21 15, TC 127000000 6 24 17,
   TC 127250000 6 41 29, TC 128000000 6 27 19, TC 129000000 6 43 30,
   TC 129859000 4 25 26, TC 130000000 6 26 18, TC 130250000 6 42 29,
   TC 131000000 6 32 22, TC 131500000 6 38 26, TC 131850000 6 41 28,
   TC 132000000 6 22 15, TC 132750000 6 28 19, TC 133000000 6 34 23,
   TC 133330000 6 37 25, TC 134000000 6 61 41, TC 135000000 6 21 14,
   TC 135250000 6 167 111, TC 136000000 6 62 41, TC 137000000 6 35 23,
   TC 138000000 6 23 15, TC 138500000 6 40 26, TC 138750000 6 37 24,
   TC 139000000 6 34 22, TC 139050000 6 34 22, TC 139054000 6 34 22,
   TC 140000000 6 28 18, TC 141000000 6 36 23, TC 141500000 6 22 14,
   TC 142000000 6 30 19, TC 143000000 6 27 17, TC 143472000 4 17 16,
   TC 144000000 6 24 15, TC 145000000 6 29 18, TC 146000000 6 47 29,
   TC 146250000 6 26 16, TC 147000000 6 49 30, TC 147891000 6 23 14,
   TC 148000000 6 23 14, TC 148250000 6 28 17, TC 148352000 4 100 91,
   TC 148500000 6 33 20, TC 149000000 6 48 29, TC 150000000 6 25 15,
   TC 151000000 4 19 17, TC 152000000 6 27 16, TC 152280000 6 44 26,
   TC 153000000 6 34 20, TC 154000000 6 53 31, TC 155000000 6 31 18,
   TC 155250000 6 50 29, TC 155750000 6 45 26, TC 156000000 6 26 15,
   TC 157000000 6 61 35, TC 157500000 6 28 16, TC 158000000 6 65 37,
   TC 158250000 6 44 25, TC 159000000 6 53 30, TC 159500000 6 39 22,
   TC 160000000 6 32 18, TC 161000000 4 31 26, TC 162000000 4 18 15,
   TC 162162000 4 131 109, TC 162500000 4 53 44, TC 163000000 4 29 24,
   TC 164000000 4 17 14, TC 165000000 4 22 18, TC 166000000 4 32 26,
   TC 167000000 4 26 21, TC 168000000 4 46 37, TC 169000000 4 104 83,
   TC 169128000 4 64 51, TC 169500000 4 39 31, TC 170000000 4 34 27,
   TC 171000000 4 19 15, TC 172000000 4 51 40, TC 172750000 4 32 25,
   TC 172800000 4 32 25, TC 173000000 4 41 32, TC 174000000 4 49 38,
   TC 174787000 4 22 17, TC 175000000 4 35 27, TC 176000000 4 30 23,
   TC 177000000 4 38 29, TC 178000000 4 29 22, TC 178500000 4 37 28,
   TC 179000000 4 53 40, TC 179500000 4 73 55, TC 180000000 4 20 15,
   TC 181000000 4 55 41, TC 182000000 4 31 23, TC 183000000 4 42 31,
   TC 184000000 4 30 22, TC 184750000 4 26 19, TC 185000000 4 37 27,
   TC 186000000 4 51 37, TC 187000000 4 36 26, TC 188000000 4 32 23,
   TC 189000000 4 21 15, TC 190000000 4 38 27, TC 190960000 4 41 29,
   TC 191000000 4 41 29, TC 192000000 4 27 19, TC 192250000 4 37 26,
   TC 193000000 4 20 14, TC 193250000 4 53 37, TC 194000000 4 23 16,
   TC 194208000 4 23 16, TC 195000000 4 26 18, TC 196000000 4 45 31,
   TC 197000000 4 35 24, TC 197750000 4 41 28, TC 198000000 4 22 15,
   TC 198500000 4 25 17, TC 199000000 4 28 19, TC 200000000 4 37 25,
   TC 201000000 4 61 41, TC 202000000 4 112 75, TC 202500000 4 21 14,
   TC 203000000 4 146 97, TC 204000000 4 62 41, TC 204750000 4 44 29,
   TC 205000000 4 38 25, TC 206000000 4 29 19, TC 207000000 4 23 15,
   TC 207500000 4 40 26, TC 208000000 4 37 24, TC 208900000 4 48 31,
   TC 209000000 4 48 31, TC 209250000 4 31 20, TC 210000000 4 28 18,
   TC 211000000 4 25 16, TC 212000000 4 22 14, TC 213000000 4 30 19,
   TC 213750000 4 38 24, TC 214000000 4 46 29, TC 214750000 4 35 22,
   TC 215000000 4 43 27, TC 216000000 4 24 15, TC 217000000 4 37 23,
   TC 218000000 4 42 26, TC 218250000 4 42 26, TC 218750000 4 34 21,
   TC 219000000 4 47 29, TC 220000000 4 44 27, TC 220640000 4 49 30,
   TC 220750000 4 36 22, TC 221000000 4 36 22, TC 222000000 4 23 14,
   TC 222525000 4 150 91, TC 222750000 4 33 20, TC 227000000 4 37 22,
   TC 230250000 4 29 17, TC 233500000 4 38 22, TC 235000000 4 40 23,
   TC 238000000 4 30 17, TC 241500000 2 17 19, TC 245250000 2 20 22,
   TC 247750000 2 22 24, TC 253250000 2 15 16, TC 256250000 2 18 19,
   TC 262500000 2 31 32, TC 267250000 2 66 67, TC 268500000 2 94 95,
   TC 270000000 2 14 14, TC 272500000 2 77 76, TC 273750000 2 57 56,
   TC 280750000 2 24 23, TC 281250000 2 23 22, TC 286000000 2 17 16,
   TC 291750000 2 26 24, TC 296703000 2 100 91, TC 297000000 2 22 20,
   TC 298000000 2 21 19
  ]"





subsection \<open>Notions used to state the properties\<close>

text \<open>The zeroed record \<^verbatim>\<open>struct wrpll_rnp best = { 0, 0, 0 }\<close>.\<close>

definition sentinel :: wrpll_rnp where
  "sentinel = \<lparr>rnp_p = 0, rnp_n2 = 0, rnp_r2 = 0\<rparr>"

text \<open>The update rule applied to a candidate given as a record.\<close>

definition update_with :: "u64 \<Rightarrow> u32 \<Rightarrow> wrpll_rnp \<Rightarrow> wrpll_rnp \<Rightarrow> wrpll_rnp" where
  "update_with freq2k budget cand best =
     wrpll_update_rnp freq2k budget (rnp_r2 cand) (rnp_n2 cand) (rnp_p cand) best"

text \<open>
  A triplet is within the budget when its scaled error \<open>1000000 * diff\<close> is at most
  \<open>freq2k * budget * p * r2\<close>, both as the update rule computes them.
\<close>

definition within_budget :: "u64 \<Rightarrow> u32 \<Rightarrow> wrpll_rnp \<Rightarrow> bool" where
  "within_budget freq2k budget t \<longleftrightarrow>
     scaled_diff (clock_diff freq2k (rnp_p t) (rnp_r2 t) (rnp_n2 t))
       \<le> budget_term freq2k budget (rnp_p t) (rnp_r2 t)"

text \<open>The literal frequencies of the five tiers that are not the default.\<close>

definition listed_freqs :: "int set" where
  "listed_freqs = budget_0_freqs \<union> budget_1500_freqs \<union> budget_2000_freqs \<union>
     budget_4000_freqs \<union> budget_5000_freqs"

subsection \<open>Enumeration order of the candidates\<close>

text \<open>
  The values the three loop counters take, in the order the loops produce them, and the
  list of all candidate triplets \<open>(r2, n2, p)\<close> in the order \<^verbatim>\<open>wrpll_update_rnp\<close> is
  called on them.
\<close>

function p_seq :: "nat \<Rightarrow> nat list" where
  "p_seq p = (if p \<le> P_MAX then p # p_seq (p + P_INC) else [])"
  by pat_completeness auto
termination
  by (relation "measure (\<lambda>p. P_MAX + 1 - p)") (auto simp: P_MAX_def P_INC_def)

declare p_seq.simps [simp del]

definition n2_values :: "nat \<Rightarrow> nat list" where
  "n2_values r2 = [VCO_MIN * r2 div LC_FREQ + 1 ..< VCO_MAX * r2 div LC_FREQ + 1]"

definition r2_values :: "nat list" where
  "r2_values = [LC_FREQ * 2 div REF_MAX + 1 ..< LC_FREQ * 2 div REF_MIN + 1]"

type_synonym cand = "nat \<times> nat \<times> nat"

definition candidates :: "cand list" where
  "candidates =
     concat (map (\<lambda>r2. concat (map (\<lambda>n2. map (\<lambda>p. (r2, n2, p)) (p_seq P_MIN)) (n2_values r2)))
               r2_values)"

definition rnp_of :: "cand \<Rightarrow> wrpll_rnp" where
  "rnp_of c = (case c of (r2, n2, p) \<Rightarrow> \<lparr>rnp_p = of_nat p, rnp_n2 = of_nat n2, rnp_r2 = of_nat r2\<rparr>)"

text \<open>The bounds of the three loops, as a predicate on a triplet \<open>(r2, n2, p)\<close>.\<close>

definition is_candidate :: "cand \<Rightarrow> bool" where
  "is_candidate c = (case c of (r2, n2, p) \<Rightarrow>
     LC_FREQ * 2 div REF_MAX + 1 \<le> r2 \<and> r2 \<le> LC_FREQ * 2 div REF_MIN \<and>
     VCO_MIN * r2 div LC_FREQ + 1 \<le> n2 \<and> n2 \<le> VCO_MAX * r2 div LC_FREQ \<and>
     P_MIN \<le> p \<and> p \<le> P_MAX \<and> (p - P_MIN) mod P_INC = 0)"

text \<open>Ascending \<open>r2\<close>, then ascending \<open>n2\<close>, then ascending \<open>p\<close>.\<close>

definition precedes :: "cand \<Rightarrow> cand \<Rightarrow> bool" where
  "precedes c c' = (case (c, c') of ((r2, n2, p), (r2', n2', p')) \<Rightarrow>
     r2 < r2' \<or> (r2 = r2' \<and> (n2 < n2' \<or> (n2 = n2' \<and> p < p'))))"

text \<open>
  When the update rule replaces \<open>best\<close> (not the sentinel) by \<open>cand\<close>: the three
  replacing branches of \<^verbatim>\<open>wrpll_update_rnp\<close>.
\<close>

definition replaces :: "u64 \<Rightarrow> u32 \<Rightarrow> wrpll_rnp \<Rightarrow> wrpll_rnp \<Rightarrow> bool" where
  "replaces freq2k budget cand best \<longleftrightarrow>
     (let a = budget_term freq2k budget (rnp_p cand) (rnp_r2 cand);
          b = budget_term freq2k budget (rnp_p best) (rnp_r2 best);
          diff = clock_diff freq2k (rnp_p cand) (rnp_r2 cand) (rnp_n2 cand);
          diff_best = clock_diff freq2k (rnp_p best) (rnp_r2 best) (rnp_n2 best);
          c = scaled_diff diff;
          d = scaled_diff diff_best
      in (a < c \<and> b < d \<and>
            closer_term (rnp_p best) (rnp_r2 best) diff < closer_term (rnp_p cand) (rnp_r2 cand) diff_best) \<or>
         (a \<ge> c \<and> b < d) \<or>
         (a \<ge> c \<and> b \<ge> d \<and>
            ratio_term (rnp_n2 cand) (rnp_r2 best) > ratio_term (rnp_n2 best) (rnp_r2 cand)))"

text \<open>
  Two triplets are tied when both are within the budget and \<open>n2 * r2'^2 = n2' * r2^2\<close>,
  or both are over it and \<open>p' * r2' * diff = p * r2 * diff'\<close>.
\<close>

definition tied :: "u64 \<Rightarrow> u32 \<Rightarrow> wrpll_rnp \<Rightarrow> wrpll_rnp \<Rightarrow> bool" where
  "tied freq2k budget x y \<longleftrightarrow>
     (within_budget freq2k budget x \<and> within_budget freq2k budget y \<and>
        ratio_term (rnp_n2 x) (rnp_r2 y) = ratio_term (rnp_n2 y) (rnp_r2 x)) \<or>
     (\<not> within_budget freq2k budget x \<and> \<not> within_budget freq2k budget y \<and>
        closer_term (rnp_p y) (rnp_r2 y) (clock_diff freq2k (rnp_p x) (rnp_r2 x) (rnp_n2 x)) =
        closer_term (rnp_p x) (rnp_r2 x) (clock_diff freq2k (rnp_p y) (rnp_r2 y) (rnp_n2 y)))"

subsection \<open>The comparisons over the integers\<close>

text \<open>
  The quantities of the update rule as exact integers, for a clock \<open>f\<close> (in units of
  100 Hz), a budget \<open>B\<close> and triplets \<open>(r2, n2, p)\<close>.
\<close>

definition diff_i :: "int \<Rightarrow> cand \<Rightarrow> int" where
  "diff_i f c = (case c of (r2, n2, p) \<Rightarrow> \<bar>f * int p * int r2 - 5400000 * int n2\<bar>)"

definition over_i :: "int \<Rightarrow> int \<Rightarrow> cand \<Rightarrow> bool" where
  "over_i f B c = (case c of (r2, n2, p) \<Rightarrow> f * B * int p * int r2 < 1000000 * diff_i f c)"

definition prod_i :: "cand \<Rightarrow> int" where
  "prod_i c = (case c of (r2, n2, p) \<Rightarrow> int p * int r2)"

definition ratio_i :: "cand \<Rightarrow> cand \<Rightarrow> int" where
  "ratio_i c b = (case (c, b) of ((r2, n2, p), (r2', n2', p')) \<Rightarrow> int n2 * int r2' * int r2')"

definition better_i :: "int \<Rightarrow> int \<Rightarrow> cand \<Rightarrow> cand \<Rightarrow> bool" where
  "better_i f B c b \<longleftrightarrow>
     (over_i f B c \<and> over_i f B b \<and> prod_i b * diff_i f c < prod_i c * diff_i f b) \<or>
     (\<not> over_i f B c \<and> over_i f B b) \<or>
     (\<not> over_i f B c \<and> \<not> over_i f B b \<and> ratio_i c b > ratio_i b c)"

subsection \<open>Deciding the result of the search without enumerating every triplet\<close>

text \<open>
  Executable checks over the integers.  For a clock \<open>F\<close> (in units of 100 Hz), a budget
  \<open>B\<close> and a triplet \<open>(r2s, n2s, ps)\<close> they decide that no candidate enumerated before
  the triplet is at least as good as it, and that no candidate enumerated after it is
  better.  Two bounded loops: \<open>all_step P d a b\<close> tests \<open>P\<close> at \<open>a, a + d, \<dots>\<close> up to
  \<open>b\<close>, and \<open>scan_down stop P k\<close> tests \<open>P\<close> at \<open>k, k - 1, \<dots>\<close> until \<open>stop\<close> holds.
\<close>

function all_step :: "(int \<Rightarrow> bool) \<Rightarrow> int \<Rightarrow> int \<Rightarrow> int \<Rightarrow> bool" where
  "all_step P d a b = (if b < a \<or> d \<le> 0 then True else P a \<and> all_step P d (a + d) b)"
  by pat_completeness auto
termination
  by (relation "measure (\<lambda>(P, d, a, b). nat (b + 1 - a))") auto

declare all_step.simps [simp del]

function scan_down :: "(int \<Rightarrow> bool) \<Rightarrow> (int \<Rightarrow> bool) \<Rightarrow> int \<Rightarrow> bool" where
  "scan_down stop P k = (if k < 0 \<or> stop k then True else P k \<and> scan_down stop P (k - 1))"
  by pat_completeness auto
termination
  by (relation "measure (\<lambda>(stop, P, k). nat (k + 1))") auto

declare scan_down.simps [simp del]

text \<open>The least even number that is not below \<open>c\<close>.\<close>

definition even_up :: "int \<Rightarrow> int" where
  "even_up c = 2 * ((c + 1) div 2)"

text \<open>\<open>(r2, n2, p)\<close> comes before \<open>(r2s, n2s, ps)\<close> in the enumeration.\<close>

definition before_i :: "int \<Rightarrow> int \<Rightarrow> int \<Rightarrow> int \<Rightarrow> int \<Rightarrow> int \<Rightarrow> bool" where
  "before_i r2s n2s ps r2 p n2 \<longleftrightarrow>
     r2 < r2s \<or> (r2 = r2s \<and> (n2 < n2s \<or> (n2 = n2s \<and> p < ps)))"

text \<open>\<open>n2\<close> is within the bounds of the \<open>n2\<close> loop for \<open>r2\<close>.\<close>

definition vco_ok :: "int \<Rightarrow> int \<Rightarrow> bool" where
  "vco_ok r2 n2 \<longleftrightarrow> 8 * r2 < 9 * n2 \<and> 9 * n2 \<le> 16 * r2"

text \<open>
  The reference triplet is within the budget.  With \<open>E = 1000000 * 5400000\<close>,
  \<open>Fp = (1000000 + B) * F\<close> and \<open>Fm = (1000000 - B) * F\<close>, a triplet is within the
  budget iff \<open>Fm * r2 * p \<le> E * n2 \<le> Fp * r2 * p\<close>.  Such an \<open>n2\<close> is harmless if it
  is outside the loop bounds, if its ratio \<open>n2 / r2^2\<close> is below the reference ratio, or
  if the ratios are equal and the triplet is not enumerated before the reference.
\<close>

definition harmless_within :: "int \<Rightarrow> int \<Rightarrow> int \<Rightarrow> int \<Rightarrow> int \<Rightarrow> int \<Rightarrow> bool" where
  "harmless_within r2s n2s ps r2 p n2 =
     (if n2 * (r2s * r2s) < n2s * (r2 * r2) then True
      else if \<not> vco_ok r2 n2 then True
      else n2 * (r2s * r2s) = n2s * (r2 * r2) \<and> \<not> before_i r2s n2s ps r2 p n2)"

definition below :: "int \<Rightarrow> int \<Rightarrow> int \<Rightarrow> bool" where
  "below K X n \<longleftrightarrow> K * n < X"

definition cell_within :: "int \<Rightarrow> int \<Rightarrow> int \<Rightarrow> int \<Rightarrow> int \<Rightarrow> int \<Rightarrow> int \<Rightarrow> bool" where
  "cell_within Fp Fm r2s n2s ps r2 p =
     scan_down (below 5400000000000 (Fm * r2 * p)) (harmless_within r2s n2s ps r2 p)
       (Fp * r2 * p div 5400000000000)"

definition row_within ::
    "int \<Rightarrow> int \<Rightarrow> int \<Rightarrow> int \<Rightarrow> int \<Rightarrow> int \<Rightarrow> int \<Rightarrow> int \<Rightarrow> bool" where
  "row_within Fp Fm r2s n2s ps P1 pend r2 =
     all_step (cell_within Fp Fm r2s n2s ps r2) 2
       (max P1 (even_up ((5400000000000 * n2s * r2 + Fp * (r2s * r2s) - 1) div (Fp * (r2s * r2s)))))
       pend"

definition check_within :: "int \<Rightarrow> int \<Rightarrow> int \<Rightarrow> int \<Rightarrow> int \<Rightarrow> bool" where
  "check_within F B r2s n2s ps =
     (let Fp = (1000000 + B) * F;
          Fm = (1000000 - B) * F;
          P1 = max 2 (even_up (8 * 5400000000000 div (9 * Fp) + 1));
          pend = min 64 (even_up (16 * 5400000000000 div (9 * Fm) + 1) - 2)
      in all_step (row_within Fp Fm r2s n2s ps P1 pend) 1 14
           (min 112 (pend * Fp * (r2s * r2s) div (5400000000000 * n2s))))"

text \<open>
  The reference triplet exceeds the budget.  With \<open>M = ps * r2s\<close>, its error \<open>D\<close>,
  \<open>K = M * 5400000\<close>, \<open>A = M * F - D\<close> and \<open>C = M * F + D\<close>, a triplet with
  \<open>m = p * r2\<close> is not closer than the reference iff \<open>K * n2 \<le> m * A\<close> or
  \<open>m * C \<le> K * n2\<close>, and farther iff one of the two holds strictly.
\<close>

definition harmless_over :: "int \<Rightarrow> int \<Rightarrow> int \<Rightarrow> int \<Rightarrow> int \<Rightarrow> int \<Rightarrow> int \<Rightarrow> int \<Rightarrow> int \<Rightarrow> bool" where
  "harmless_over K V U r2s n2s ps r2 p n2 =
     (if \<not> vco_ok r2 n2 then True
      else if before_i r2s n2s ps r2 p n2 then U < K * n2
      else U \<le> K * n2 \<or> K * n2 = V)"

definition cell_over :: "int \<Rightarrow> int \<Rightarrow> int \<Rightarrow> int \<Rightarrow> int \<Rightarrow> int \<Rightarrow> int \<Rightarrow> int \<Rightarrow> bool" where
  "cell_over K A C r2s n2s ps r2 p =
     scan_down (below K (p * r2 * A)) (harmless_over K (p * r2 * A) (p * r2 * C) r2s n2s ps r2 p)
       (p * r2 * C div K)"

definition row_over :: "int \<Rightarrow> int \<Rightarrow> int \<Rightarrow> int \<Rightarrow> int \<Rightarrow> int \<Rightarrow> int \<Rightarrow> int \<Rightarrow> int \<Rightarrow> bool" where
  "row_over K A C r2s n2s ps P1 pend r2 =
     all_step (cell_over K A C r2s n2s ps r2) 2 P1 pend"

definition check_over :: "int \<Rightarrow> int \<Rightarrow> int \<Rightarrow> int \<Rightarrow> bool" where
  "check_over F r2s n2s ps =
     (let M = ps * r2s;
          D = \<bar>F * M - 5400000 * n2s\<bar>;
          K = M * 5400000;
          A = M * F - D;
          C = M * F + D;
          P1 = max 2 (even_up (8 * K div (9 * C) + 1));
          pend = min 64 (even_up (16 * K div (9 * A) + 1) - 2)
      in 0 < A \<and> all_step (row_over K A C r2s n2s ps P1 pend) 1 14 112)"

text \<open>
  The check of one table entry: the clock is a positive \<open>int\<close> off the bypass path, the
  reference triplet is within the loop bounds, and the check that matches its budget
  class succeeds.
\<close>

definition check_entry :: "int \<Rightarrow> int \<Rightarrow> int \<Rightarrow> int \<Rightarrow> int \<Rightarrow> bool" where
  "check_entry clock B ps n2s r2s =
     (let F = clock div 100 in
      100 \<le> clock \<and> clock < 2147483648 \<and> F \<noteq> 5400000 \<and>
      14 \<le> r2s \<and> r2s \<le> 112 \<and> vco_ok r2s n2s \<and>
      2 \<le> ps \<and> ps \<le> 64 \<and> even ps \<and>
      (if F * B * ps * r2s < 1000000 * \<bar>F * ps * r2s - 5400000 * n2s\<bar>
       then check_over F r2s n2s ps
       else check_within F B r2s n2s ps))"

text \<open>A table entry is reproduced when the search returns its three dividers.\<close>

definition entry_ok :: "wrpll_tmds_clock \<Rightarrow> bool" where
  "entry_ok ref \<longleftrightarrow>
     wrpll_compute_rnp (sint (tc_clock ref)) =
       \<lparr>rnp_p = ucast (tc_p ref), rnp_n2 = ucast (tc_n2 ref), rnp_r2 = ucast (tc_r2 ref)\<rparr>"

definition check_ref :: "wrpll_tmds_clock \<Rightarrow> bool" where
  "check_ref ref =
     check_entry (sint (tc_clock ref)) (uint (wrpll_get_budget_for_freq (sint (tc_clock ref))))
       (uint (tc_p ref)) (uint (tc_n2 ref)) (uint (tc_r2 ref))"

section \<open>Properties\<close>

subsection \<open>Budget selector\<close>

lemma budget_in_six: "wrpll_get_budget_for_freq clock \<in> {0, 1000, 1500, 2000, 4000, 5000}"
  by (simp add: wrpll_get_budget_for_freq_def)

lemma budget_default: "clock \<notin> listed_freqs \<Longrightarrow> wrpll_get_budget_for_freq clock = 1000"
  by (simp add: wrpll_get_budget_for_freq_def listed_freqs_def)

lemma budget_range: "range wrpll_get_budget_for_freq = {0, 1000, 1500, 2000, 4000, 5000}"
proof
  show "range wrpll_get_budget_for_freq \<subseteq> {0, 1000, 1500, 2000, 4000, 5000}"
    using budget_in_six by blast
  have "wrpll_get_budget_for_freq 25175000 = 0"
       "wrpll_get_budget_for_freq 1 = 1000"
       "wrpll_get_budget_for_freq 233500000 = 1500"
       "wrpll_get_budget_for_freq 169128000 = 2000"
       "wrpll_get_budget_for_freq 256250000 = 4000"
       "wrpll_get_budget_for_freq 267250000 = 5000"
    by (simp_all add: wrpll_get_budget_for_freq_def budget_0_freqs_def budget_1500_freqs_def
         budget_2000_freqs_def budget_4000_freqs_def budget_5000_freqs_def)
  then show "{0, 1000, 1500, 2000, 4000, 5000} \<subseteq> range wrpll_get_budget_for_freq"
    by (metis (no_types) empty_subsetI insert_subset rangeI)
qed

text \<open>
  C6: the budget selector is defined on every integer, its values are exactly the six
  budgets 0, 1000, 1500, 2000, 4000 and 5000, and a frequency that is none of the
  literals of the five non-default tiers gets 1000.
\<close>

theorem budget_selector_total_six_values:
  "range wrpll_get_budget_for_freq = {0, 1000, 1500, 2000, 4000, 5000} \<and>
   (\<forall>clock. clock \<notin> listed_freqs \<longrightarrow> wrpll_get_budget_for_freq clock = 1000)"
  using budget_range budget_default by blast

theorem budget_selector_total_six_values_witness:
  "(19750000::int) \<notin> listed_freqs \<and> wrpll_get_budget_for_freq 19750000 = 1000"
proof -
  have h: "(19750000::int) \<notin> listed_freqs"
    by (simp add: listed_freqs_def budget_0_freqs_def budget_1500_freqs_def
         budget_2000_freqs_def budget_4000_freqs_def budget_5000_freqs_def)
  from budget_selector_total_six_values h show ?thesis by blast
qed

subsection \<open>Update rule\<close>

lemma update_rule_cases_aux:
  "(rnp_p best = 0 \<longrightarrow>
      wrpll_update_rnp freq2k budget r2 n2 p best = \<lparr>rnp_p = p, rnp_n2 = n2, rnp_r2 = r2\<rparr>) \<and>
   (rnp_p best \<noteq> 0 \<longrightarrow>
      (budget_term freq2k budget p r2 < scaled_diff (clock_diff freq2k p r2 n2) \<and>
       budget_term freq2k budget (rnp_p best) (rnp_r2 best)
         < scaled_diff (clock_diff freq2k (rnp_p best) (rnp_r2 best) (rnp_n2 best)) \<longrightarrow>
         wrpll_update_rnp freq2k budget r2 n2 p best =
           (if closer_term (rnp_p best) (rnp_r2 best) (clock_diff freq2k p r2 n2)
                 < closer_term p r2 (clock_diff freq2k (rnp_p best) (rnp_r2 best) (rnp_n2 best))
            then \<lparr>rnp_p = p, rnp_n2 = n2, rnp_r2 = r2\<rparr> else best)) \<and>
      (scaled_diff (clock_diff freq2k p r2 n2) \<le> budget_term freq2k budget p r2 \<and>
       budget_term freq2k budget (rnp_p best) (rnp_r2 best)
         < scaled_diff (clock_diff freq2k (rnp_p best) (rnp_r2 best) (rnp_n2 best)) \<longrightarrow>
         wrpll_update_rnp freq2k budget r2 n2 p best = \<lparr>rnp_p = p, rnp_n2 = n2, rnp_r2 = r2\<rparr>) \<and>
      (budget_term freq2k budget p r2 < scaled_diff (clock_diff freq2k p r2 n2) \<and>
       scaled_diff (clock_diff freq2k (rnp_p best) (rnp_r2 best) (rnp_n2 best))
         \<le> budget_term freq2k budget (rnp_p best) (rnp_r2 best) \<longrightarrow>
         wrpll_update_rnp freq2k budget r2 n2 p best = best) \<and>
      (scaled_diff (clock_diff freq2k p r2 n2) \<le> budget_term freq2k budget p r2 \<and>
       scaled_diff (clock_diff freq2k (rnp_p best) (rnp_r2 best) (rnp_n2 best))
         \<le> budget_term freq2k budget (rnp_p best) (rnp_r2 best) \<longrightarrow>
         wrpll_update_rnp freq2k budget r2 n2 p best =
           (if ratio_term (rnp_n2 best) r2 < ratio_term n2 (rnp_r2 best)
            then \<lparr>rnp_p = p, rnp_n2 = n2, rnp_r2 = r2\<rparr> else best)))"
  unfolding wrpll_update_rnp_def Let_def by auto

text \<open>
  C2: the update rule adopts the candidate when the best record is the sentinel
  (\<open>p = 0\<close>).  Otherwise, with \<open>a = freq2k * budget * p * r2\<close>,
  \<open>b = freq2k * budget * best.p * best.r2\<close>,
  \<open>c = 1000000 * |freq2k * p * r2 - LC_FREQ_2K * n2|\<close> and
  \<open>d = 1000000 * |freq2k * best.p * best.r2 - LC_FREQ_2K * best.n2|\<close>, computed in 64
  bits from the 32-bit products \<open>LC_FREQ_2K * n2\<close>, it decides by the four cases over
  \<open>a < c\<close> and \<open>b < d\<close>: both over budget, the candidate replaces best iff
  \<open>best.p * best.r2 * diff < p * r2 * diff_best\<close>; only best over budget, the candidate
  replaces it; only the candidate over budget, best is kept; both within, the candidate
  replaces best iff \<open>n2 * best.r2^2 > best.n2 * r2^2\<close>.
\<close>

theorem update_rule_case_analysis:
  fixes freq2k :: u64 and budget r2 n2 p :: u32 and best :: wrpll_rnp
  defines "cand \<equiv> \<lparr>rnp_p = p, rnp_n2 = n2, rnp_r2 = r2\<rparr>"
    and "a \<equiv> freq2k * ucast budget * ucast p * ucast r2"
    and "b \<equiv> freq2k * ucast budget * ucast (rnp_p best) * ucast (rnp_r2 best)"
    and "x \<equiv> freq2k * ucast p * ucast r2"
    and "y \<equiv> (ucast (5400000 * n2) :: u64)"
    and "x_best \<equiv> freq2k * ucast (rnp_p best) * ucast (rnp_r2 best)"
    and "y_best \<equiv> (ucast (5400000 * rnp_n2 best) :: u64)"
  defines "diff \<equiv> (if x > y then x - y else y - x)"
    and "diff_best \<equiv> (if x_best > y_best then x_best - y_best else y_best - x_best)"
  defines "c \<equiv> 1000000 * diff" and "d \<equiv> 1000000 * diff_best"
  defines "res \<equiv> wrpll_update_rnp freq2k budget r2 n2 p best"
  shows "(rnp_p best = 0 \<longrightarrow> res = cand) \<and>
         (rnp_p best \<noteq> 0 \<longrightarrow>
            (a < c \<and> b < d \<longrightarrow>
               res = (if ucast (rnp_p best * rnp_r2 best) * diff < ucast (p * r2) * diff_best
                      then cand else best)) \<and>
            (a \<ge> c \<and> b < d \<longrightarrow> res = cand) \<and>
            (a < c \<and> b \<ge> d \<longrightarrow> res = best) \<and>
            (a \<ge> c \<and> b \<ge> d \<longrightarrow>
               res = (if n2 * rnp_r2 best * rnp_r2 best > rnp_n2 best * r2 * r2
                      then cand else best)))"
proof -
  have a: "a = budget_term freq2k budget p r2"
    and b: "b = budget_term freq2k budget (rnp_p best) (rnp_r2 best)"
    by (simp_all only: a_def b_def budget_term_def)
  have lc: "(of_nat LC_FREQ_2K :: u32) = 5400000"
    by (simp add: LC_FREQ_2K_def LC_FREQ_def)
  have diff: "diff = clock_diff freq2k p r2 n2"
    and diff_best: "diff_best = clock_diff freq2k (rnp_p best) (rnp_r2 best) (rnp_n2 best)"
    by (simp_all only: diff_def diff_best_def x_def y_def x_best_def y_best_def
          clock_diff_def ABS_DIFF_def lc)
  have c: "c = scaled_diff (clock_diff freq2k p r2 n2)"
    and d: "d = scaled_diff (clock_diff freq2k (rnp_p best) (rnp_r2 best) (rnp_n2 best))"
    by (simp_all only: c_def d_def diff diff_best scaled_diff_def)
  have cl: "ucast (rnp_p best * rnp_r2 best) * diff
        = closer_term (rnp_p best) (rnp_r2 best) (clock_diff freq2k p r2 n2)"
    and cl_best: "ucast (p * r2) * diff_best
        = closer_term p r2 (clock_diff freq2k (rnp_p best) (rnp_r2 best) (rnp_n2 best))"
    by (simp_all only: closer_term_def diff diff_best)
  have ra: "n2 * rnp_r2 best * rnp_r2 best = ratio_term n2 (rnp_r2 best)"
    and ra_best: "rnp_n2 best * r2 * r2 = ratio_term (rnp_n2 best) r2"
    by (simp_all only: ratio_term_def)
  show ?thesis
    unfolding a b c d cl cl_best ra ra_best res_def cand_def
    by (rule update_rule_cases_aux)
qed

lemmas update_eval_defs =
  budget_term_def clock_diff_def scaled_diff_def closer_term_def ratio_term_def
  ABS_DIFF_def LC_FREQ_2K_def LC_FREQ_def

theorem update_rule_case_analysis_witness:
  "rnp_p \<lparr>rnp_p = 2, rnp_n2 = 14, rnp_r2 = 14\<rparr> \<noteq> 0 \<and>
   scaled_diff (clock_diff 1000000 6 18 20) \<le> budget_term 1000000 1000 6 18 \<and>
   budget_term 1000000 1000 2 14 < scaled_diff (clock_diff 1000000 2 14 14) \<and>
   wrpll_update_rnp 1000000 1000 18 20 6 \<lparr>rnp_p = 2, rnp_n2 = 14, rnp_r2 = 14\<rparr>
     = \<lparr>rnp_p = 6, rnp_n2 = 20, rnp_r2 = 18\<rparr>"
proof -
  have h: "rnp_p \<lparr>rnp_p = 2, rnp_n2 = 14, rnp_r2 = 14\<rparr> \<noteq> 0"
       "scaled_diff (clock_diff 1000000 6 18 20) \<le> budget_term 1000000 1000 6 18"
       "budget_term 1000000 1000 2 14 < scaled_diff (clock_diff 1000000 2 14 14)"
    by (simp_all add: update_eval_defs)
  from update_rule_case_analysis
         [of "\<lparr>rnp_p = 2, rnp_n2 = 14, rnp_r2 = 14\<rparr>" 1000000 1000 18 20 6] h
  have "wrpll_update_rnp 1000000 1000 18 20 6 \<lparr>rnp_p = 2, rnp_n2 = 14, rnp_r2 = 14\<rparr>
     = \<lparr>rnp_p = 6, rnp_n2 = 20, rnp_r2 = 18\<rparr>"
    by (simp add: update_eval_defs)
  with h show ?thesis by simp
qed

text \<open>
  C7: of two candidates (with \<open>p \<noteq> 0\<close>, as every divider is positive) of which one
  is within the budget and the other over it, the one within the budget is selected,
  whichever is applied first to the empty record, whatever the two errors are.
\<close>

theorem in_budget_candidate_wins:
  assumes "within_budget freq2k budget x" and "\<not> within_budget freq2k budget y"
    and "rnp_p x \<noteq> 0" and "rnp_p y \<noteq> 0"
  shows "update_with freq2k budget y (update_with freq2k budget x sentinel) = x \<and>
         update_with freq2k budget x (update_with freq2k budget y sentinel) = x"
  using assms
  by (cases x; cases y)
     (auto simp add: update_with_def wrpll_update_rnp_def Let_def sentinel_def within_budget_def)

theorem in_budget_candidate_wins_witness:
  "within_budget 1000000 1000 \<lparr>rnp_p = 6, rnp_n2 = 20, rnp_r2 = 18\<rparr> \<and>
   \<not> within_budget 1000000 1000 \<lparr>rnp_p = 2, rnp_n2 = 14, rnp_r2 = 14\<rparr> \<and>
   rnp_p \<lparr>rnp_p = 6, rnp_n2 = 20, rnp_r2 = 18\<rparr> \<noteq> 0 \<and>
   rnp_p \<lparr>rnp_p = 2, rnp_n2 = 14, rnp_r2 = 14\<rparr> \<noteq> 0 \<and>
   update_with 1000000 1000 \<lparr>rnp_p = 2, rnp_n2 = 14, rnp_r2 = 14\<rparr>
     (update_with 1000000 1000 \<lparr>rnp_p = 6, rnp_n2 = 20, rnp_r2 = 18\<rparr> sentinel)
     = \<lparr>rnp_p = 6, rnp_n2 = 20, rnp_r2 = 18\<rparr> \<and>
   update_with 1000000 1000 \<lparr>rnp_p = 6, rnp_n2 = 20, rnp_r2 = 18\<rparr>
     (update_with 1000000 1000 \<lparr>rnp_p = 2, rnp_n2 = 14, rnp_r2 = 14\<rparr> sentinel)
     = \<lparr>rnp_p = 6, rnp_n2 = 20, rnp_r2 = 18\<rparr>"
proof -
  have h: "within_budget 1000000 1000 \<lparr>rnp_p = 6, rnp_n2 = 20, rnp_r2 = 18\<rparr>"
       "\<not> within_budget 1000000 1000 \<lparr>rnp_p = 2, rnp_n2 = 14, rnp_r2 = 14\<rparr>"
       "rnp_p \<lparr>rnp_p = 6, rnp_n2 = 20, rnp_r2 = 18\<rparr> \<noteq> 0"
       "rnp_p \<lparr>rnp_p = 2, rnp_n2 = 14, rnp_r2 = 14\<rparr> \<noteq> 0"
    by (simp_all add: within_budget_def update_eval_defs)
  from in_budget_candidate_wins [OF h] h show ?thesis by simp
qed

subsection \<open>Bypass path\<close>

lemma sdiv_bypass:
  assumes "540000000 \<le> c" "c \<le> 540000099"
  shows "(c::int) sdiv 100 = 5400000"
proof -
  have "c sdiv 100 = c div 100"
    using assms by (simp add: signed_divide_int_def sgn_if)
  also have "\<dots> = 5400000"
    using assms by presburger
  finally show ?thesis .
qed

text \<open>
  C4: for the input 540000000 Hz the search returns \<open>(r2 = 2, n2 = 2, p = 1)\<close>; the
  budget is not looked at and no candidate is enumerated.
\<close>

theorem bypass_540MHz:
  "wrpll_compute_rnp 540000000 = \<lparr>rnp_p = 1, rnp_n2 = 2, rnp_r2 = 2\<rparr>"
  by (simp add: wrpll_compute_rnp_def Let_def signed_divide_int_def)

text \<open>
  C9: the division by 100 truncates, so each of the hundred clocks from 540000000 Hz
  to 540000099 Hz takes the bypass path and returns \<open>(r2 = 2, n2 = 2, p = 1)\<close>.
\<close>

theorem bypass_whole_truncation_range:
  assumes "540000000 \<le> c" and "c \<le> 540000099"
  shows "wrpll_compute_rnp c = \<lparr>rnp_p = 1, rnp_n2 = 2, rnp_r2 = 2\<rparr>"
  using sdiv_bypass [OF assms] by (simp add: wrpll_compute_rnp_def Let_def)

theorem bypass_whole_truncation_range_witness:
  "(540000000::int) \<le> 540000099 \<and> (540000099::int) \<le> 540000099 \<and>
   wrpll_compute_rnp 540000099 = \<lparr>rnp_p = 1, rnp_n2 = 2, rnp_r2 = 2\<rparr>"
proof -
  have h: "(540000000::int) \<le> 540000099" "(540000099::int) \<le> 540000099" by simp_all
  from bypass_whole_truncation_range [OF h] show ?thesis by simp
qed

subsection \<open>Comparison driver\<close>





subsection \<open>The loops as a fold over the candidates\<close>

lemma p_loop_fold:
  "p_loop freq2k budget r2 n2 p best =
     fold (\<lambda>p. wrpll_update_rnp freq2k budget (of_nat r2) (of_nat n2) (of_nat p)) (p_seq p) best"
proof (induction freq2k budget r2 n2 p best rule: p_loop.induct)
  case (1 freq2k budget r2 n2 p best)
  show ?case
  proof (cases "p \<le> P_MAX")
    case True
    then show ?thesis
      using "1.IH" by (subst p_loop.simps, subst p_seq.simps) simp
  next
    case False
    then show ?thesis
      by (subst p_loop.simps, subst p_seq.simps) simp
  qed
qed

lemma n2_loop_fold:
  "n2_loop freq2k budget r2 n2 best =
     fold (\<lambda>n2. p_loop freq2k budget r2 n2 P_MIN) [n2 ..< VCO_MAX * r2 div LC_FREQ + 1] best"
proof (induction freq2k budget r2 n2 best rule: n2_loop.induct)
  case (1 freq2k budget r2 n2 best)
  show ?case
  proof (cases "n2 \<le> VCO_MAX * r2 div LC_FREQ")
    case True
    then have "[n2 ..< VCO_MAX * r2 div LC_FREQ + 1] = n2 # [n2 + 1 ..< VCO_MAX * r2 div LC_FREQ + 1]"
      by (simp add: upt_conv_Cons)
    then show ?thesis
      using "1.IH" True by (subst n2_loop.simps) simp
  next
    case False
    then show ?thesis
      by (subst n2_loop.simps) simp
  qed
qed

lemma r2_loop_fold:
  "r2_loop freq2k budget r2 best =
     fold (\<lambda>r2. n2_loop freq2k budget r2 (VCO_MIN * r2 div LC_FREQ + 1))
       [r2 ..< LC_FREQ * 2 div REF_MIN + 1] best"
proof (induction freq2k budget r2 best rule: r2_loop.induct)
  case (1 freq2k budget r2 best)
  show ?case
  proof (cases "r2 \<le> LC_FREQ * 2 div REF_MIN")
    case True
    then have "[r2 ..< LC_FREQ * 2 div REF_MIN + 1] = r2 # [r2 + 1 ..< LC_FREQ * 2 div REF_MIN + 1]"
      by (simp add: upt_conv_Cons)
    then show ?thesis
      using "1.IH" True by (subst r2_loop.simps) simp
  next
    case False
    then show ?thesis
      by (subst r2_loop.simps) simp
  qed
qed

lemma fold_concat_map:
  "fold f (concat (map g xs)) s = fold (\<lambda>x. fold f (g x)) xs s"
  by (induction xs arbitrary: s) simp_all

lemma search_as_fold:
  "r2_loop freq2k budget (LC_FREQ * 2 div REF_MAX + 1) best =
     fold (\<lambda>c. update_with freq2k budget (rnp_of c)) candidates best"
proof -
  have upd: "update_with freq2k budget (rnp_of (r2, n2, p)) =
      wrpll_update_rnp freq2k budget (of_nat r2) (of_nat n2) (of_nat p)" for r2 n2 p
    by (rule ext) (simp add: update_with_def rnp_of_def)
  have p: "fold (\<lambda>c. update_with freq2k budget (rnp_of c)) (map (\<lambda>p. (r2, n2, p)) (p_seq P_MIN)) s
      = p_loop freq2k budget r2 n2 P_MIN s" for r2 n2 s
    by (simp add: p_loop_fold fold_map comp_def upd)
  show ?thesis
    unfolding candidates_def r2_loop_fold fold_concat_map p n2_loop_fold
    by (simp add: r2_values_def n2_values_def)
qed

lemma p_seq_P_MIN:
  "p_seq P_MIN = [2, 4, 6, 8, 10, 12, 14, 16, 18, 20, 22, 24, 26, 28, 30, 32, 34, 36, 38, 40,
     42, 44, 46, 48, 50, 52, 54, 56, 58, 60, 62, 64]"
  by (simp add: p_seq.simps P_MIN_def P_MAX_def P_INC_def)

lemma set_p_seq: "set (p_seq P_MIN) = {p. P_MIN \<le> p \<and> p \<le> P_MAX \<and> (p - P_MIN) mod P_INC = 0}"
proof -
  have "p \<in> set (p_seq P_MIN)" if a: "p \<le> 64" "2 \<le> p" "even p" for p :: nat
  proof -
    from a obtain k where k: "p = 2 * k" by (elim evenE)
    with a have "1 \<le> k" "k \<le> 32" by simp_all
    then have "k \<in> {1..32}" by simp
    also have "{1..32} = set [1..<33::nat]" by auto
    finally have "k \<in> set [1..<33]" .
    then have "2 * k \<in> set (map (\<lambda>k. 2 * k) [1..<33])" by simp
    also have "map (\<lambda>k. 2 * k) [1..<33] = p_seq P_MIN"
      unfolding p_seq_P_MIN by code_simp
    finally show ?thesis using k by simp
  qed
  moreover have "2 \<le> p \<and> p \<le> 64 \<and> even p" if "p \<in> set (p_seq P_MIN)" for p
    using that unfolding p_seq_P_MIN by auto
  ultimately show ?thesis
    by (auto simp: P_MIN_def P_MAX_def P_INC_def simp flip: even_iff_mod_2_eq_zero)
qed

lemma set_candidates: "set candidates = {c. is_candidate c}"
proof -
  have "c \<in> set candidates \<longleftrightarrow> is_candidate c" for c
  proof (cases c)
    case (fields r2 n2 p)
    have "(r2, n2, p) \<in> set candidates \<longleftrightarrow>
        r2 \<in> set r2_values \<and> n2 \<in> set (n2_values r2) \<and> p \<in> set (p_seq P_MIN)"
      unfolding candidates_def by auto
    also have "\<dots> \<longleftrightarrow> is_candidate (r2, n2, p)"
      unfolding set_p_seq by (simp add: is_candidate_def r2_values_def n2_values_def) linarith
    finally show ?thesis using fields by simp
  qed
  then show ?thesis by blast
qed

subsection \<open>No wrap-around within the enumerated bounds\<close>

lemma uint_mult_bound:
  fixes a b :: "'a::len word"
  assumes "uint a \<le> A" and "uint b \<le> B" and "A * B < 2 ^ LENGTH('a)"
  shows "uint (a * b) = uint a * uint b" and "uint (a * b) \<le> A * B"
proof -
  have le: "uint a * uint b \<le> A * B"
    using assms(1,2) by (intro mult_mono) (auto intro: order_trans [OF uint_ge_0])
  then have "uint a * uint b < 2 ^ LENGTH('a)"
    using assms(3) by simp
  then show "uint (a * b) = uint a * uint b"
    by (simp add: uint_mult_lem)
  with le show "uint (a * b) \<le> A * B" by simp
qed

lemma uint_ucast_32_64: "uint (ucast (x :: u32) :: u64) = uint x"
  by (simp add: uint_up_ucast is_up)

lemma uint_abs_diff:
  "uint (ABS_DIFF x y) = \<bar>uint x - uint y\<bar>"
  by (auto simp: ABS_DIFF_def word_less_def uint_sub_if_size)


lemma uint_freq_p_r2:
  fixes f :: u64 and p r2 :: u32
  assumes "uint f \<le> 21474836" and "uint p \<le> 64" and "uint r2 \<le> 112"
  shows "uint (f * ucast p * ucast r2) = uint f * uint p * uint r2"
    and "uint (f * ucast p * ucast r2) \<le> 21474836 * 64 * 112"
proof -
  have 1: "uint (f * ucast p) = uint f * uint p" "uint (f * ucast p) \<le> 21474836 * 64"
    using uint_mult_bound [of f 21474836 "ucast p" 64] assms
    by (simp_all add: uint_ucast_32_64)
  have 2: "uint (f * ucast p * ucast r2) = uint (f * ucast p) * uint r2"
      "uint (f * ucast p * ucast r2) \<le> 21474836 * 64 * 112"
    using uint_mult_bound [of "f * ucast p" "21474836 * 64" "ucast r2" 112] 1(2) assms(3)
    by (simp_all add: uint_ucast_32_64)
  show "uint (f * ucast p * ucast r2) = uint f * uint p * uint r2"
    using 1(1) 2(1) by simp
  show "uint (f * ucast p * ucast r2) \<le> 21474836 * 64 * 112"
    by (fact 2(2))
qed

lemma uint_budget_term:
  fixes f :: u64 and B p r2 :: u32
  assumes "uint f \<le> 21474836" and "uint B \<le> 5000" and "uint p \<le> 64" and "uint r2 \<le> 112"
  shows "uint (budget_term f B p r2) = uint f * uint B * uint p * uint r2"
proof -
  have 1: "uint (f * ucast B) = uint f * uint B" "uint (f * ucast B) \<le> 21474836 * 5000"
    using uint_mult_bound [of f 21474836 "ucast B" 5000] assms
    by (simp_all add: uint_ucast_32_64)
  have 2: "uint (f * ucast B * ucast p) = uint (f * ucast B) * uint p"
      "uint (f * ucast B * ucast p) \<le> 21474836 * 5000 * 64"
    using uint_mult_bound [of "f * ucast B" "21474836 * 5000" "ucast p" 64] 1(2) assms(3)
    by (simp_all add: uint_ucast_32_64)
  have 3: "uint (f * ucast B * ucast p * ucast r2) = uint (f * ucast B * ucast p) * uint r2"
    using uint_mult_bound [of "f * ucast B * ucast p" "21474836 * 5000 * 64" "ucast r2" 112]
      2(2) assms(4)
    by (simp_all add: uint_ucast_32_64)
  show ?thesis
    unfolding budget_term_def using 1(1) 2(1) 3 by simp
qed

lemma uint_lc_n2:
  fixes n2 :: u32
  assumes "uint n2 \<le> 199"
  shows "uint (of_nat LC_FREQ_2K * n2 :: u32) = 5400000 * uint n2"
    and "uint (of_nat LC_FREQ_2K * n2 :: u32) \<le> 5400000 * 199"
  using uint_mult_bound [of "5400000 :: u32" 5400000 n2 199] assms
  by (simp_all add: LC_FREQ_2K_def LC_FREQ_def)

lemma uint_clock_diff:
  fixes f :: u64 and p r2 n2 :: u32
  assumes "uint f \<le> 21474836" and "uint p \<le> 64" and "uint r2 \<le> 112" and "uint n2 \<le> 199"
  shows "uint (clock_diff f p r2 n2) = \<bar>uint f * uint p * uint r2 - 5400000 * uint n2\<bar>"
    and "uint (clock_diff f p r2 n2) \<le> 21474836 * 64 * 112"
proof -
  show eq: "uint (clock_diff f p r2 n2) = \<bar>uint f * uint p * uint r2 - 5400000 * uint n2\<bar>"
    unfolding clock_diff_def uint_abs_diff
    by (simp add: uint_freq_p_r2(1) [OF assms(1-3)] uint_lc_n2(1) [OF assms(4)] uint_ucast_32_64)
  have "uint f * uint p * uint r2 \<le> 21474836 * 64 * 112"
    using uint_freq_p_r2 [OF assms(1-3)] by simp
  moreover have "0 \<le> uint f * uint p * uint r2" by simp
  moreover have "5400000 * uint n2 \<le> 5400000 * 199" using assms(4) by simp
  moreover have "0 \<le> 5400000 * uint n2" by simp
  ultimately show "uint (clock_diff f p r2 n2) \<le> 21474836 * 64 * 112"
    unfolding eq by linarith
qed

lemma uint_scaled_diff:
  fixes d :: u64
  assumes "uint d \<le> 21474836 * 64 * 112"
  shows "uint (scaled_diff d) = 1000000 * uint d"
  using uint_mult_bound(1) [of "1000000 :: u64" 1000000 d "21474836 * 64 * 112"] assms
  by (simp add: scaled_diff_def)

lemma uint_closer_term:
  fixes p r2 :: u32 and d :: u64
  assumes "uint p \<le> 64" and "uint r2 \<le> 112" and "uint d \<le> 21474836 * 64 * 112"
  shows "uint (closer_term p r2 d) = uint p * uint r2 * uint d"
proof -
  have 1: "uint (p * r2) = uint p * uint r2" "uint (p * r2) \<le> 64 * 112"
    using uint_mult_bound [of p 64 r2 112] assms by simp_all
  have "uint (ucast (p * r2) * d :: u64) = uint (ucast (p * r2) :: u64) * uint d"
    using uint_mult_bound(1) [of "ucast (p * r2) :: u64" "64 * 112" d "21474836 * 64 * 112"]
      1(2) assms(3)
    by (simp add: uint_ucast_32_64)
  then show ?thesis
    by (simp add: closer_term_def uint_ucast_32_64 1(1))
qed

lemma uint_ratio_term:
  fixes n2 r2 :: u32
  assumes "uint n2 \<le> 199" and "uint r2 \<le> 112"
  shows "uint (ratio_term n2 r2) = uint n2 * uint r2 * uint r2"
proof -
  have 1: "uint (n2 * r2) = uint n2 * uint r2" "uint (n2 * r2) \<le> 199 * 112"
    using uint_mult_bound [of n2 199 r2 112] assms by simp_all
  have "uint (n2 * r2 * r2) = uint (n2 * r2) * uint r2"
    using uint_mult_bound(1) [of "n2 * r2" "199 * 112" r2 112] 1(2) assms(2) by simp
  then show ?thesis
    by (simp add: ratio_term_def 1(1))
qed

subsection \<open>From the machine comparisons to the integer comparisons\<close>

lemma update_with_replaces:
  "update_with f B cand best =
     (if rnp_p best = 0 then cand else if replaces f B cand best then cand else best)"
  by (cases cand) (auto simp: update_with_def wrpll_update_rnp_def replaces_def Let_def)

lemma cand_bounds:
  assumes "is_candidate (r2, n2, p)"
  shows "14 \<le> r2" "r2 \<le> 112" "1 \<le> n2" "n2 \<le> 199" "2 \<le> p" "p \<le> 64" "even p"
proof -
  from assms have r: "14 \<le> r2" "r2 \<le> 112"
    and n: "2400 * r2 div 2700 + 1 \<le> n2" "n2 \<le> 4800 * r2 div 2700"
    and p: "2 \<le> p" "p \<le> 64" "(p - 2) mod 2 = 0"
    by (simp_all add: is_candidate_def LC_FREQ_def REF_MAX_def REF_MIN_def VCO_MIN_def
          VCO_MAX_def P_MIN_def P_MAX_def P_INC_def)
  show "14 \<le> r2" "r2 \<le> 112" "2 \<le> p" "p \<le> 64" by fact+
  show "1 \<le> n2" using n(1) by simp
  have "4800 * r2 div 2700 \<le> 4800 * 112 div 2700"
    using r(2) by (intro div_le_mono) simp
  then show "n2 \<le> 199" using n(2) by simp
  show "even p" using p by presburger
qed

lemma uint_of_nat_u32: "n \<le> 199 \<Longrightarrow> uint (of_nat n :: u32) = int n"
  by (simp add: unsigned_of_nat take_bit_nat_eq_self)

lemma rnp_of_fields:
  assumes "is_candidate (r2, n2, p)"
  shows "uint (rnp_r2 (rnp_of (r2, n2, p))) = int r2"
    "uint (rnp_n2 (rnp_of (r2, n2, p))) = int n2"
    "uint (rnp_p (rnp_of (r2, n2, p))) = int p"
  using cand_bounds [OF assms] by (simp_all add: rnp_of_def uint_of_nat_u32)

lemma rnp_of_p_nonzero: "is_candidate c \<Longrightarrow> rnp_p (rnp_of c) \<noteq> 0"
proof (cases c)
  case (fields r2 n2 p)
  assume "is_candidate c"
  with fields have c: "is_candidate (r2, n2, p)" by simp
  have "uint (rnp_p (rnp_of (r2, n2, p))) \<noteq> 0"
    using rnp_of_fields(3) [OF c] cand_bounds(5) [OF c] by simp
  then show ?thesis using fields by auto
qed

lemma rnp_of_inj:
  assumes "is_candidate c" and "is_candidate c'" and "rnp_of c = rnp_of c'"
  shows "c = c'"
proof (cases c; cases c')
  fix r2 n2 p r2' n2' p'
  assume c: "c = (r2, n2, p)" and c': "c' = (r2', n2', p')"
  from assms c c' have 1: "is_candidate (r2, n2, p)" "is_candidate (r2', n2', p')" by simp_all
  from assms(3) c c' have "uint (rnp_r2 (rnp_of (r2, n2, p))) = uint (rnp_r2 (rnp_of (r2', n2', p')))"
    "uint (rnp_n2 (rnp_of (r2, n2, p))) = uint (rnp_n2 (rnp_of (r2', n2', p')))"
    "uint (rnp_p (rnp_of (r2, n2, p))) = uint (rnp_p (rnp_of (r2', n2', p')))"
    by simp_all
  then show ?thesis
    unfolding rnp_of_fields [OF 1(1)] rnp_of_fields [OF 1(2)] using c c' by simp
qed

lemma cand_terms:
  fixes f :: u64 and B :: u32
  assumes f: "uint f \<le> 21474836" and B: "uint B \<le> 5000"
    and c: "is_candidate (r2, n2, p)"
  shows "uint (budget_term f B (rnp_p (rnp_of (r2, n2, p))) (rnp_r2 (rnp_of (r2, n2, p))))
           = uint f * uint B * int p * int r2"
    and "uint (clock_diff f (rnp_p (rnp_of (r2, n2, p))) (rnp_r2 (rnp_of (r2, n2, p)))
           (rnp_n2 (rnp_of (r2, n2, p)))) = diff_i (uint f) (r2, n2, p)"
    and "uint (scaled_diff (clock_diff f (rnp_p (rnp_of (r2, n2, p))) (rnp_r2 (rnp_of (r2, n2, p)))
           (rnp_n2 (rnp_of (r2, n2, p))))) = 1000000 * diff_i (uint f) (r2, n2, p)"
    and "uint (clock_diff f (rnp_p (rnp_of (r2, n2, p))) (rnp_r2 (rnp_of (r2, n2, p)))
           (rnp_n2 (rnp_of (r2, n2, p)))) \<le> 21474836 * 64 * 112"
proof -
  let ?t = "rnp_of (r2, n2, p)"
  note fl = rnp_of_fields [OF c]
  note bd = cand_bounds [OF c]
  have b: "uint (rnp_p ?t) \<le> 64" "uint (rnp_r2 ?t) \<le> 112" "uint (rnp_n2 ?t) \<le> 199"
    using bd unfolding fl by simp_all
  show "uint (budget_term f B (rnp_p ?t) (rnp_r2 ?t)) = uint f * uint B * int p * int r2"
    using uint_budget_term [OF f B b(1,2)] unfolding fl .
  show d: "uint (clock_diff f (rnp_p ?t) (rnp_r2 ?t) (rnp_n2 ?t)) = diff_i (uint f) (r2, n2, p)"
    using uint_clock_diff(1) [OF f b] unfolding fl by (simp add: diff_i_def)
  show le: "uint (clock_diff f (rnp_p ?t) (rnp_r2 ?t) (rnp_n2 ?t)) \<le> 21474836 * 64 * 112"
    using uint_clock_diff(2) [OF f b] .
  show "uint (scaled_diff (clock_diff f (rnp_p ?t) (rnp_r2 ?t) (rnp_n2 ?t)))
      = 1000000 * diff_i (uint f) (r2, n2, p)"
    using uint_scaled_diff [OF le] d by simp
qed

lemma within_budget_iff:
  fixes f :: u64 and B :: u32
  assumes f: "uint f \<le> 21474836" and B: "uint B \<le> 5000"
    and c: "is_candidate c"
  shows "within_budget f B (rnp_of c) \<longleftrightarrow> \<not> over_i (uint f) (uint B) c"
proof (cases c)
  case (fields r2 n2 p)
  with c have c': "is_candidate (r2, n2, p)" by simp
  show ?thesis
    unfolding fields within_budget_def word_le_def cand_terms [OF f B c'] over_i_def
    by (simp add: not_less)
qed

lemma cross_terms:
  fixes f :: u64 and B :: u32
  assumes f: "uint f \<le> 21474836" and B: "uint B \<le> 5000"
    and c: "is_candidate (r2, n2, p)" and b: "is_candidate (r2', n2', p')"
  shows "uint (closer_term (rnp_p (rnp_of (r2', n2', p'))) (rnp_r2 (rnp_of (r2', n2', p')))
           (clock_diff f (rnp_p (rnp_of (r2, n2, p))) (rnp_r2 (rnp_of (r2, n2, p)))
              (rnp_n2 (rnp_of (r2, n2, p)))))
         = prod_i (r2', n2', p') * diff_i (uint f) (r2, n2, p)"
    and "uint (ratio_term (rnp_n2 (rnp_of (r2, n2, p))) (rnp_r2 (rnp_of (r2', n2', p'))))
         = ratio_i (r2, n2, p) (r2', n2', p')"
proof -
  let ?t = "rnp_of (r2, n2, p)" and ?u = "rnp_of (r2', n2', p')"
  note fl = rnp_of_fields [OF c] rnp_of_fields [OF b]
  note bd = cand_bounds [OF c] and bd' = cand_bounds [OF b]
  have 1: "uint (rnp_p ?u) \<le> 64" "uint (rnp_r2 ?u) \<le> 112" "uint (rnp_n2 ?t) \<le> 199"
    using bd bd' unfolding fl by simp_all
  show "uint (closer_term (rnp_p ?u) (rnp_r2 ?u) (clock_diff f (rnp_p ?t) (rnp_r2 ?t) (rnp_n2 ?t)))
      = prod_i (r2', n2', p') * diff_i (uint f) (r2, n2, p)"
    using uint_closer_term [OF 1(1,2) cand_terms(4) [OF f B c]]
    unfolding cand_terms(2) [OF f B c] fl by (simp add: prod_i_def)
  show "uint (ratio_term (rnp_n2 ?t) (rnp_r2 ?u)) = ratio_i (r2, n2, p) (r2', n2', p')"
    using uint_ratio_term [OF 1(3,2)] unfolding fl by (simp add: ratio_i_def)
qed

lemma replaces_iff_better_i:
  fixes f :: u64 and B :: u32
  assumes f: "uint f \<le> 21474836" and B: "uint B \<le> 5000"
    and c: "is_candidate c" and b: "is_candidate b"
  shows "replaces f B (rnp_of c) (rnp_of b) \<longleftrightarrow> better_i (uint f) (uint B) c b"
proof (cases c; cases b)
  fix r2 n2 p r2' n2' p'
  assume eq: "c = (r2, n2, p)" "b = (r2', n2', p')"
  with c b have c': "is_candidate (r2, n2, p)" and b': "is_candidate (r2', n2', p')" by simp_all
  show ?thesis
    unfolding eq replaces_def Let_def word_le_def word_less_def
      cand_terms [OF f B c'] cand_terms [OF f B b'] cross_terms [OF f B c' b'] cross_terms [OF f B b' c']
      better_i_def over_i_def
    by (auto simp: not_less)
qed

subsection \<open>Order properties of the integer comparison\<close>

lemma frac_less_le_trans:
  fixes xb xc xe wb wc we :: int
  assumes "0 < wb" and "0 < wc" and "0 < we"
    and "xc * wb < xb * wc" and "xb * we \<le> xe * wb"
  shows "xc * we < xe * wc"
proof -
  have "xc * wb * we < xb * wc * we"
    using assms(3,4) by (simp add: mult_strict_right_mono)
  moreover have "xb * we * wc \<le> xe * wb * wc"
    using assms(2,5) by (simp add: mult_right_mono)
  ultimately have "(xc * we) * wb < (xe * wc) * wb"
    by (simp add: ac_simps)
  then show ?thesis
    using assms(1) by (simp add: mult_less_cancel_right_pos)
qed

lemma frac_le_less_trans:
  fixes xb xc xe wb wc we :: int
  assumes "0 < wb" and "0 < wc" and "0 < we"
    and "xe * wb \<le> xb * we" and "xb * wc < xc * wb"
  shows "xe * wc < xc * we"
proof -
  have "xe * wb * wc \<le> xb * we * wc"
    using assms(2,4) by (simp add: mult_right_mono)
  moreover have "xb * wc * we < xc * wb * we"
    using assms(3,5) by (simp add: mult_strict_right_mono)
  ultimately have "(xe * wc) * wb < (xc * we) * wb"
    by (simp add: ac_simps)
  then show ?thesis
    using assms(1) by (simp add: mult_less_cancel_right_pos)
qed

lemma better_i_asym: "better_i f B c b \<Longrightarrow> \<not> better_i f B b c"
  by (auto simp: better_i_def)

lemma prod_i_pos: "is_candidate c \<Longrightarrow> 0 < prod_i c"
  by (cases c) (use cand_bounds in \<open>fastforce simp: prod_i_def\<close>)

lemma better_i_trans:
  assumes c: "is_candidate c" and b: "is_candidate b" and e: "is_candidate e"
    and cb: "better_i f B c b" and eb: "\<not> better_i f B e b"
  shows "better_i f B c e"
proof -
  obtain r2c n2c pc r2b n2b pb r2e n2e pe
    where eq: "c = (r2c, n2c, pc)" "b = (r2b, n2b, pb)" "e = (r2e, n2e, pe)"
    by (cases c; cases b; cases e) auto
  have pos: "0 < prod_i c" "0 < prod_i b" "0 < prod_i e"
    using c b e by (simp_all add: prod_i_pos)
  have rpos: "0 < int r2c * int r2c" "0 < int r2b * int r2b" "0 < int r2e * int r2e"
    using cand_bounds(1) [of r2c n2c pc] cand_bounds(1) [of r2b n2b pb]
      cand_bounds(1) [of r2e n2e pe] c b e eq by simp_all
  show ?thesis
  proof (cases "over_i f B b")
    case ob: True
    with eb have oe: "over_i f B e" and le: "prod_i e * diff_i f b \<le> prod_i b * diff_i f e"
      by (auto simp: better_i_def not_less)
    show ?thesis
    proof (cases "over_i f B c")
      case True
      with cb ob have "prod_i b * diff_i f c < prod_i c * diff_i f b"
        by (auto simp: better_i_def)
      then have "diff_i f c * prod_i b < diff_i f b * prod_i c"
        by (simp add: ac_simps)
      moreover have "diff_i f b * prod_i e \<le> diff_i f e * prod_i b"
        using le by (simp add: ac_simps)
      ultimately have "diff_i f c * prod_i e < diff_i f e * prod_i c"
        using frac_less_le_trans [OF pos(2,1,3)] by blast
      then show ?thesis
        using True oe by (simp add: better_i_def ac_simps)
    next
      case False
      then show ?thesis using oe by (simp add: better_i_def)
    qed
  next
    case nb: False
    with cb have nc: "\<not> over_i f B c" and gt: "ratio_i b c < ratio_i c b"
      by (auto simp: better_i_def)
    show ?thesis
    proof (cases "over_i f B e")
      case True
      then show ?thesis using nc by (simp add: better_i_def)
    next
      case False
      with eb nb have "ratio_i e b \<le> ratio_i b e"
        by (auto simp: better_i_def not_less)
      then have "int n2e * (int r2b * int r2b) \<le> int n2b * (int r2e * int r2e)"
        by (simp add: ratio_i_def eq ac_simps)
      moreover have "int n2b * (int r2c * int r2c) < int n2c * (int r2b * int r2b)"
        using gt by (simp add: ratio_i_def eq ac_simps)
      ultimately have "int n2e * (int r2c * int r2c) < int n2c * (int r2e * int r2e)"
        using frac_le_less_trans [OF rpos(2,1,3)] by blast
      then show ?thesis
        using False nc by (simp add: better_i_def ratio_i_def eq ac_simps)
    qed
  qed
qed

subsection \<open>A fold that keeps the first maximal element\<close>

lemma fold_first_max:
  fixes upd :: "'c \<Rightarrow> 's \<Rightarrow> 's" and emb :: "'c \<Rightarrow> 's" and better :: "'c \<Rightarrow> 'c \<Rightarrow> bool"
  assumes init: "\<And>c. c \<in> S \<Longrightarrow> upd c init = emb c"
    and step: "\<And>c b. c \<in> S \<Longrightarrow> b \<in> S \<Longrightarrow> upd c (emb b) = (if better c b then emb c else emb b)"
    and asym: "\<And>c b. c \<in> S \<Longrightarrow> b \<in> S \<Longrightarrow> better c b \<Longrightarrow> \<not> better b c"
    and trans: "\<And>c b e. c \<in> S \<Longrightarrow> b \<in> S \<Longrightarrow> e \<in> S \<Longrightarrow> better c b \<Longrightarrow> \<not> better e b \<Longrightarrow> better c e"
  shows "set xs \<subseteq> S \<Longrightarrow> xs \<noteq> [] \<Longrightarrow>
    \<exists>pre r post. xs = pre @ r # post \<and> fold upd xs init = emb r \<and>
      (\<forall>e\<in>set pre. better r e) \<and> (\<forall>x\<in>set xs. \<not> better x r)"
proof (induction xs rule: rev_induct)
  case Nil
  then show ?case by simp
next
  case (snoc x ys)
  from snoc.prems have xS: "x \<in> S" and ysS: "set ys \<subseteq> S" by simp_all
  have irrefl: "\<not> better x x" using asym [OF xS xS] by blast
  show ?case
  proof (cases "ys = []")
    case True
    then have "ys @ [x] = [] @ x # []" "fold upd (ys @ [x]) init = emb x"
      using init [OF xS] by simp_all
    then show ?thesis using irrefl True by fastforce
  next
    case False
    from snoc.IH [OF ysS False] obtain pre r post
      where ys: "ys = pre @ r # post" and res: "fold upd ys init = emb r"
        and pre: "\<forall>e\<in>set pre. better r e" and all: "\<forall>y\<in>set ys. \<not> better y r"
      by blast
    from ys ysS have rS: "r \<in> S" by auto
    have f: "fold upd (ys @ [x]) init = (if better x r then emb x else emb r)"
      using res step [OF xS rS] by simp
    show ?thesis
    proof (cases "better x r")
      case True
      have 1: "\<forall>e\<in>set ys. better x e"
      proof
        fix e assume e: "e \<in> set ys"
        with ysS have eS: "e \<in> S" by blast
        from all e have "\<not> better e r" by blast
        from trans [OF xS rS eS True this] show "better x e" .
      qed
      have 2: "\<forall>y\<in>set (ys @ [x]). \<not> better y x"
      proof
        fix y assume "y \<in> set (ys @ [x])"
        then consider "y = x" | "y \<in> set ys" by auto
        then show "\<not> better y x"
        proof cases
          case 1 then show ?thesis using irrefl by simp
        next
          case 2
          with ysS have yS: "y \<in> S" by blast
          from 1 2 have "better x y" using \<open>\<forall>e\<in>set ys. better x e\<close> by blast
          from asym [OF xS yS this] show ?thesis .
        qed
      qed
      have "ys @ [x] = ys @ x # []" by simp
      moreover have "fold upd (ys @ [x]) init = emb x" using f True by simp
      ultimately show ?thesis using 1 2 by blast
    next
      case False
      have "ys @ [x] = pre @ r # (post @ [x])" using ys by simp
      moreover have "fold upd (ys @ [x]) init = emb r" using f False by simp
      moreover have "\<forall>y\<in>set (ys @ [x]). \<not> better y r" using all False by auto
      ultimately show ?thesis using pre by blast
    qed
  qed
qed

subsection \<open>The candidate list is in enumeration order\<close>

lemma sorted_wrt_concat_map:
  assumes "sorted_wrt Q xs"
    and "\<And>x. x \<in> set xs \<Longrightarrow> sorted_wrt R (g x)"
    and "\<And>x y a b. Q x y \<Longrightarrow> a \<in> set (g x) \<Longrightarrow> b \<in> set (g y) \<Longrightarrow> R a b"
  shows "sorted_wrt R (concat (map g xs))"
  using assms by (induction xs) (auto simp: sorted_wrt_append)

lemma sorted_p_seq: "sorted_wrt (<) (p_seq P_MIN)"
  unfolding p_seq_P_MIN by simp

lemma sorted_candidates: "sorted_wrt precedes candidates"
  unfolding candidates_def
proof (rule sorted_wrt_concat_map [where Q = "(<)"])
  show "sorted_wrt (<) r2_values"
    by (simp only: r2_values_def sorted_wrt_upt)
next
  fix r2
  show "sorted_wrt precedes
     (concat (map (\<lambda>n2. map (\<lambda>p. (r2, n2, p)) (p_seq P_MIN)) (n2_values r2)))"
  proof (rule sorted_wrt_concat_map [where Q = "(<)"])
    show "sorted_wrt (<) (n2_values r2)"
      by (simp only: n2_values_def sorted_wrt_upt)
  next
    fix n2
    show "sorted_wrt precedes (map (\<lambda>p. (r2, n2, p)) (p_seq P_MIN))"
      unfolding sorted_wrt_map
      by (rule sorted_wrt_mono_rel [OF _ sorted_p_seq]) (simp add: precedes_def)
  next
    fix x y :: nat and a b
    assume "x < y" "a \<in> set (map (\<lambda>p. (r2, x, p)) (p_seq P_MIN))"
      "b \<in> set (map (\<lambda>p. (r2, y, p)) (p_seq P_MIN))"
    then show "precedes a b" by (auto simp: precedes_def)
  qed
next
  fix x y :: nat and a b
  assume "x < y"
    "a \<in> set (concat (map (\<lambda>n2. map (\<lambda>p. (x, n2, p)) (p_seq P_MIN)) (n2_values x)))"
    "b \<in> set (concat (map (\<lambda>n2. map (\<lambda>p. (y, n2, p)) (p_seq P_MIN)) (n2_values y)))"
  then show "precedes a b" by (auto simp: precedes_def)
qed

lemma precedes_asym: "precedes a b \<Longrightarrow> \<not> precedes b a"
  by (auto simp: precedes_def)

lemma precedes_total: "a \<noteq> b \<Longrightarrow> precedes a b \<or> precedes b a"
  by (cases a; cases b) (auto simp: precedes_def)

lemma candidates_nonempty: "candidates \<noteq> []"
proof -
  have "is_candidate (14, 13, 2)"
    by (simp add: is_candidate_def LC_FREQ_def REF_MAX_def REF_MIN_def VCO_MIN_def
          VCO_MAX_def P_MIN_def P_MAX_def P_INC_def)
  then have "(14, 13, 2) \<in> set candidates"
    by (simp add: set_candidates)
  then show ?thesis by auto
qed

subsection \<open>The search returns the first maximal candidate\<close>

lemma update_sentinel: "update_with f B cand sentinel = cand"
  by (simp add: update_with_replaces sentinel_def)

lemma fold_first_max_candidates:
  fixes f :: u64 and B :: u32
  assumes f: "uint f \<le> 21474836" and B: "uint B \<le> 5000"
  shows "\<exists>c. is_candidate c \<and>
           fold (\<lambda>c. update_with f B (rnp_of c)) candidates sentinel = rnp_of c \<and>
           (\<forall>x. is_candidate x \<longrightarrow>
              \<not> better_i (uint f) (uint B) x c \<and>
              (precedes x c \<longrightarrow> better_i (uint f) (uint B) c x))"
proof -
  let ?S = "{c. is_candidate c}" and ?better = "better_i (uint f) (uint B)"
  have "\<exists>pre r post. candidates = pre @ r # post \<and>
      fold (\<lambda>c. update_with f B (rnp_of c)) candidates sentinel = rnp_of r \<and>
      (\<forall>e\<in>set pre. ?better r e) \<and> (\<forall>x\<in>set candidates. \<not> ?better x r)"
  proof (rule fold_first_max [where S = ?S and better = ?better])
    show "update_with f B (rnp_of c) sentinel = rnp_of c" for c
      by (rule update_sentinel)
    show "update_with f B (rnp_of c) (rnp_of b) = (if ?better c b then rnp_of c else rnp_of b)"
      if "c \<in> ?S" "b \<in> ?S" for c b
      using that rnp_of_p_nonzero [of b] replaces_iff_better_i [OF f B, of c b]
      by (simp add: update_with_replaces)
    show "\<not> ?better b c" if "?better c b" for c b
      using that by (rule better_i_asym)
    show "?better c e" if "c \<in> ?S" "b \<in> ?S" "e \<in> ?S" "?better c b" "\<not> ?better e b" for c b e
      using that better_i_trans [of c b e] by simp
    show "set candidates \<subseteq> ?S" by (simp add: set_candidates)
    show "candidates \<noteq> []" by (rule candidates_nonempty)
  qed
  then obtain pre r post where xs: "candidates = pre @ r # post"
    and res: "fold (\<lambda>c. update_with f B (rnp_of c)) candidates sentinel = rnp_of r"
    and pre: "\<forall>e\<in>set pre. ?better r e" and all: "\<forall>x\<in>set candidates. \<not> ?better x r"
    by blast
  have "r \<in> set candidates" unfolding xs by simp
  then have r: "is_candidate r"
    by (simp add: set_candidates)
  have "?better r x" if x: "is_candidate x" and px: "precedes x r" for x
  proof -
    from sorted_candidates have "sorted_wrt precedes (pre @ r # post)"
      unfolding xs .
    then have post: "\<forall>y\<in>set post. precedes r y"
      by (simp add: sorted_wrt_append)
    from x have "x \<in> set candidates" by (simp add: set_candidates)
    then have "x \<in> set pre \<or> x = r \<or> x \<in> set post" unfolding xs by auto
    moreover have "x \<noteq> r" using px precedes_asym by blast
    moreover have "x \<notin> set post" using post px precedes_asym by blast
    ultimately show ?thesis using pre by blast
  qed
  moreover have "\<not> ?better x r" if "is_candidate x" for x
  proof -
    from that have "x \<in> set candidates" by (simp add: set_candidates)
    with all show ?thesis by blast
  qed
  ultimately show ?thesis using r res by blast
qed

lemma search_pinned:
  fixes f :: u64 and B :: u32
  assumes f: "uint f \<le> 21474836" and B: "uint B \<le> 5000"
    and t: "is_candidate t"
    and before: "\<And>x. is_candidate x \<Longrightarrow> precedes x t \<Longrightarrow> better_i (uint f) (uint B) t x"
    and after: "\<And>x. is_candidate x \<Longrightarrow> precedes t x \<Longrightarrow> \<not> better_i (uint f) (uint B) x t"
  shows "fold (\<lambda>c. update_with f B (rnp_of c)) candidates sentinel = rnp_of t"
proof -
  from fold_first_max_candidates [OF f B] obtain c where c: "is_candidate c"
    and res: "fold (\<lambda>c. update_with f B (rnp_of c)) candidates sentinel = rnp_of c"
    and max: "\<And>x. is_candidate x \<Longrightarrow> \<not> better_i (uint f) (uint B) x c"
    and first: "\<And>x. is_candidate x \<Longrightarrow> precedes x c \<Longrightarrow> better_i (uint f) (uint B) c x"
    by blast
  have "c = t"
  proof (rule ccontr)
    assume "c \<noteq> t"
    then consider "precedes c t" | "precedes t c" using precedes_total by blast
    then show False
    proof cases
      case 1
      from before [OF c 1] max [OF t] show False by blast
    next
      case 2
      from first [OF t 2] after [OF c 2] show False by blast
    qed
  qed
  with res show ?thesis by simp
qed

subsection \<open>Without any bound on the clock\<close>

lemma fold_update_in:
  "fold (\<lambda>c. update_with f B (rnp_of c)) xs s \<in> insert s (rnp_of ` set xs)"
proof (induction xs arbitrary: s)
  case Nil
  then show ?case by simp
next
  case (Cons x xs)
  have "update_with f B (rnp_of x) s \<in> {s, rnp_of x}"
    by (simp add: update_with_replaces)
  with Cons.IH [of "update_with f B (rnp_of x) s"] show ?case by auto
qed

lemma fold_update_sentinel_in:
  assumes "xs \<noteq> []"
  shows "fold (\<lambda>c. update_with f B (rnp_of c)) xs sentinel \<in> rnp_of ` set xs"
proof (cases xs)
  case Nil
  with assms show ?thesis by simp
next
  case (Cons x ys)
  have "fold (\<lambda>c. update_with f B (rnp_of c)) xs sentinel
      = fold (\<lambda>c. update_with f B (rnp_of c)) ys (rnp_of x)"
    using Cons by (simp add: update_sentinel)
  with fold_update_in [of f B ys "rnp_of x"] Cons show ?thesis by auto
qed

subsection \<open>Range of the result, exact arithmetic, ties\<close>

lemma compute_as_fold:
  assumes "(word_of_int (clock sdiv 100) :: u64) \<noteq> 5400000"
  shows "wrpll_compute_rnp clock =
     fold (\<lambda>c. update_with (word_of_int (clock sdiv 100)) (wrpll_get_budget_for_freq clock) (rnp_of c))
       candidates sentinel"
  using assms unfolding wrpll_compute_rnp_def Let_def search_as_fold sentinel_def
  by (simp only: if_False)

lemma budget_le_5000: "uint (wrpll_get_budget_for_freq clock) \<le> 5000"
  by (simp add: wrpll_get_budget_for_freq_def)

lemma freq2k_nonneg_clock:
  assumes "0 \<le> clock" and "clock < 2 ^ 31"
  shows "uint (word_of_int (clock sdiv 100) :: u64) = clock div 100"
    and "uint (word_of_int (clock sdiv 100) :: u64) \<le> 21474836"
proof -
  have s: "clock sdiv 100 = clock div 100"
    using assms(1) by (simp add: signed_divide_int_def sgn_if)
  have r: "0 \<le> clock div 100" "clock div 100 \<le> 21474836"
    using assms by simp_all
  then have "clock div 100 < 2 ^ 64" by simp
  then show "uint (word_of_int (clock sdiv 100) :: u64) = clock div 100"
    using r(1) unfolding s by (simp add: uint_word_of_int)
  then show "uint (word_of_int (clock sdiv 100) :: u64) \<le> 21474836"
    using r(2) by simp
qed

text \<open>
  C5: whenever the bypass path is not taken (for every clock, positive or not), the
  returned \<open>r2\<close>, \<open>n2\<close> and \<open>p\<close> are positive, \<open>r2\<close> lies in
  \<open>LC_FREQ * 2 / REF_MAX + 1 .. LC_FREQ * 2 / REF_MIN\<close>, that is \<open>14 .. 112\<close>, \<open>n2\<close>
  lies in \<open>VCO_MIN * r2 / LC_FREQ + 1 .. VCO_MAX * r2 / LC_FREQ\<close> for the returned
  \<open>r2\<close>, \<open>p\<close> is one of \<open>2, 4, \<dots>, 64\<close>, and the result is not the zero
  sentinel.
\<close>

theorem search_result_in_range:
  assumes "(word_of_int (clock sdiv 100) :: u64) \<noteq> 5400000"
  defines "res \<equiv> wrpll_compute_rnp clock"
  defines "r2 \<equiv> unat (rnp_r2 res)" and "n2 \<equiv> unat (rnp_n2 res)" and "p \<equiv> unat (rnp_p res)"
  shows "0 < r2 \<and> 0 < n2 \<and> 0 < p \<and>
         LC_FREQ * 2 div REF_MAX + 1 \<le> r2 \<and> r2 \<le> LC_FREQ * 2 div REF_MIN \<and>
         14 \<le> r2 \<and> r2 \<le> 112 \<and>
         VCO_MIN * r2 div LC_FREQ + 1 \<le> n2 \<and> n2 \<le> VCO_MAX * r2 div LC_FREQ \<and>
         even p \<and> 2 \<le> p \<and> p \<le> 64 \<and>
         res \<noteq> sentinel"
proof -
  have "res \<in> rnp_of ` set candidates"
    unfolding res_def compute_as_fold [OF assms(1)]
    by (rule fold_update_sentinel_in [OF candidates_nonempty])
  then obtain c where "c \<in> set candidates" and res: "res = rnp_of c"
    by (rule imageE)
  then have c: "is_candidate c"
    by (simp add: set_candidates)
  obtain cr2 cn2 cp where eq: "c = (cr2, cn2, cp)" by (cases c)
  note c' = c [unfolded eq]
  have flds: "r2 = cr2" "n2 = cn2" "p = cp"
    unfolding r2_def n2_def p_def res eq unat_eq_nat_uint rnp_of_fields [OF c']
    by simp_all
  have "rnp_p res \<noteq> 0" unfolding res using c by (rule rnp_of_p_nonzero)
  then have "res \<noteq> sentinel" by (auto simp: sentinel_def)
  moreover have "LC_FREQ * 2 div REF_MAX + 1 \<le> r2 \<and> r2 \<le> LC_FREQ * 2 div REF_MIN \<and>
      VCO_MIN * r2 div LC_FREQ + 1 \<le> n2 \<and> n2 \<le> VCO_MAX * r2 div LC_FREQ"
    using c' unfolding flds by (simp add: is_candidate_def)
  ultimately show ?thesis
    using cand_bounds [OF c'] unfolding flds by simp
qed


theorem search_result_in_range_witness:
  "(word_of_int (19750000 sdiv 100) :: u64) \<noteq> 5400000 \<and>
   14 \<le> unat (rnp_r2 (wrpll_compute_rnp 19750000)) \<and>
   unat (rnp_r2 (wrpll_compute_rnp 19750000)) \<le> 112 \<and>
   even (unat (rnp_p (wrpll_compute_rnp 19750000))) \<and>
   wrpll_compute_rnp 19750000 \<noteq> sentinel"
proof -
  have h: "(word_of_int (19750000 sdiv 100) :: u64) \<noteq> 5400000"
    by (simp add: signed_divide_int_def)
  from search_result_in_range [OF h] h show ?thesis by simp
qed

text \<open>
  C8: for a clock of at most \<open>21474836\<close> units of 100 Hz (every non-negative
  \<open>int\<close> clock, so in particular the supported 19 to 300 MHz with
  \<open>freq2k \<le> 3000000\<close>), a budget among the six values, and candidate and best
  within \<open>r2 \<le> 112\<close>, \<open>n2 \<le> 199\<close>, \<open>p \<le> 64\<close>, every intermediate value of the
  update rule is the exact integer: \<open>a\<close>, \<open>b\<close>, the 32-bit products
  \<open>LC_FREQ_2K * n2\<close>, \<open>diff\<close>, \<open>diff_best\<close>, \<open>c\<close>, \<open>d\<close>, the two cross
  products with \<open>p * r2\<close>, and the two 32-bit products \<open>n2 * r2 * r2\<close>.
\<close>

theorem update_rule_no_wraparound:
  fixes freq2k :: u64 and budget r2 n2 p :: u32 and best :: wrpll_rnp
  assumes "uint freq2k \<le> 21474836"
    and "budget \<in> {0, 1000, 1500, 2000, 4000, 5000}"
    and "uint r2 \<le> 112" and "uint n2 \<le> 199" and "uint p \<le> 64"
    and "uint (rnp_r2 best) \<le> 112" and "uint (rnp_n2 best) \<le> 199" and "uint (rnp_p best) \<le> 64"
  defines "diff \<equiv> clock_diff freq2k p r2 n2"
    and "diff_best \<equiv> clock_diff freq2k (rnp_p best) (rnp_r2 best) (rnp_n2 best)"
  shows "uint (budget_term freq2k budget p r2) = uint freq2k * uint budget * uint p * uint r2 \<and>
    uint (budget_term freq2k budget (rnp_p best) (rnp_r2 best))
      = uint freq2k * uint budget * uint (rnp_p best) * uint (rnp_r2 best) \<and>
    uint (of_nat LC_FREQ_2K * n2 :: u32) = 5400000 * uint n2 \<and>
    uint (of_nat LC_FREQ_2K * rnp_n2 best :: u32) = 5400000 * uint (rnp_n2 best) \<and>
    uint diff = \<bar>uint freq2k * uint p * uint r2 - 5400000 * uint n2\<bar> \<and>
    uint diff_best = \<bar>uint freq2k * uint (rnp_p best) * uint (rnp_r2 best)
                       - 5400000 * uint (rnp_n2 best)\<bar> \<and>
    uint (scaled_diff diff) = 1000000 * uint diff \<and>
    uint (scaled_diff diff_best) = 1000000 * uint diff_best \<and>
    uint (closer_term (rnp_p best) (rnp_r2 best) diff)
      = uint (rnp_p best) * uint (rnp_r2 best) * uint diff \<and>
    uint (closer_term p r2 diff_best) = uint p * uint r2 * uint diff_best \<and>
    uint (ratio_term n2 (rnp_r2 best)) = uint n2 * uint (rnp_r2 best) * uint (rnp_r2 best) \<and>
    uint (ratio_term (rnp_n2 best) r2) = uint (rnp_n2 best) * uint r2 * uint r2"
proof -
  have B: "uint budget \<le> 5000" using assms(2) by auto
  note f = assms(1)
  have d: "uint diff \<le> 21474836 * 64 * 112"
    unfolding diff_def by (rule uint_clock_diff(2) [OF f assms(5,3,4)])
  have d': "uint diff_best \<le> 21474836 * 64 * 112"
    unfolding diff_best_def by (rule uint_clock_diff(2) [OF f assms(8,6,7)])
  show ?thesis
  proof (intro conjI)
    show "uint (budget_term freq2k budget p r2) = uint freq2k * uint budget * uint p * uint r2"
      by (rule uint_budget_term [OF f B assms(5,3)])
    show "uint (budget_term freq2k budget (rnp_p best) (rnp_r2 best))
             = uint freq2k * uint budget * uint (rnp_p best) * uint (rnp_r2 best)"
      by (rule uint_budget_term [OF f B assms(8,6)])
    show "uint (of_nat LC_FREQ_2K * n2 :: u32) = 5400000 * uint n2"
      by (rule uint_lc_n2(1) [OF assms(4)])
    show "uint (of_nat LC_FREQ_2K * rnp_n2 best :: u32) = 5400000 * uint (rnp_n2 best)"
      by (rule uint_lc_n2(1) [OF assms(7)])
    show "uint diff = \<bar>uint freq2k * uint p * uint r2 - 5400000 * uint n2\<bar>"
      unfolding diff_def by (rule uint_clock_diff(1) [OF f assms(5,3,4)])
    show "uint diff_best = \<bar>uint freq2k * uint (rnp_p best) * uint (rnp_r2 best)
                               - 5400000 * uint (rnp_n2 best)\<bar>"
      unfolding diff_best_def by (rule uint_clock_diff(1) [OF f assms(8,6,7)])
    show "uint (scaled_diff diff) = 1000000 * uint diff"
      by (rule uint_scaled_diff [OF d])
    show "uint (scaled_diff diff_best) = 1000000 * uint diff_best"
      by (rule uint_scaled_diff [OF d'])
    show "uint (closer_term (rnp_p best) (rnp_r2 best) diff)
             = uint (rnp_p best) * uint (rnp_r2 best) * uint diff"
      by (rule uint_closer_term [OF assms(8,6) d])
    show "uint (closer_term p r2 diff_best) = uint p * uint r2 * uint diff_best"
      by (rule uint_closer_term [OF assms(5,3) d'])
    show "uint (ratio_term n2 (rnp_r2 best)) = uint n2 * uint (rnp_r2 best) * uint (rnp_r2 best)"
      by (rule uint_ratio_term [OF assms(4,6)])
    show "uint (ratio_term (rnp_n2 best) r2) = uint (rnp_n2 best) * uint r2 * uint r2"
      by (rule uint_ratio_term [OF assms(7,3)])
  qed
qed

theorem update_rule_no_wraparound_witness:
  "uint (2980000 :: u64) \<le> 21474836 \<and>
   (5000 :: u32) \<in> {0, 1000, 1500, 2000, 4000, 5000} \<and>
   uint (112 :: u32) \<le> 112 \<and> uint (199 :: u32) \<le> 199 \<and> uint (64 :: u32) \<le> 64 \<and>
   uint (rnp_r2 \<lparr>rnp_p = 62, rnp_n2 = 13, rnp_r2 = 14\<rparr>) \<le> 112 \<and>
   uint (rnp_n2 \<lparr>rnp_p = 62, rnp_n2 = 13, rnp_r2 = 14\<rparr>) \<le> 199 \<and>
   uint (rnp_p \<lparr>rnp_p = 62, rnp_n2 = 13, rnp_r2 = 14\<rparr>) \<le> 64 \<and>
   uint (budget_term 2980000 5000 64 112) = 2980000 * 5000 * 64 * 112 \<and>
   uint (scaled_diff (clock_diff 2980000 64 112 199))
     = 1000000 * \<bar>2980000 * 64 * 112 - 5400000 * 199\<bar> \<and>
   uint (closer_term 62 14 (clock_diff 2980000 64 112 199))
     = 62 * 14 * \<bar>2980000 * 64 * 112 - 5400000 * 199\<bar> \<and>
   uint (ratio_term 199 14) = 199 * 14 * 14"
proof -
  have h: "uint (2980000 :: u64) \<le> 21474836"
      "(5000 :: u32) \<in> {0, 1000, 1500, 2000, 4000, 5000}"
      "uint (112 :: u32) \<le> 112" "uint (199 :: u32) \<le> 199" "uint (64 :: u32) \<le> 64"
      "uint (rnp_r2 \<lparr>rnp_p = 62, rnp_n2 = 13, rnp_r2 = 14\<rparr>) \<le> 112"
      "uint (rnp_n2 \<lparr>rnp_p = 62, rnp_n2 = 13, rnp_r2 = 14\<rparr>) \<le> 199"
      "uint (rnp_p \<lparr>rnp_p = 62, rnp_n2 = 13, rnp_r2 = 14\<rparr>) \<le> 64"
    by simp_all
  from update_rule_no_wraparound [OF h] h show ?thesis by simp
qed

lemma tied_keeps_best:
  assumes "rnp_p best \<noteq> 0" and "tied f B cand best"
  shows "update_with f B cand best = best"
  using assms
  by (cases cand; cases best)
     (auto simp add: update_with_def wrpll_update_rnp_def Let_def within_budget_def tied_def)

lemma tied_not_better_i:
  fixes f :: u64 and B :: u32
  assumes f: "uint f \<le> 21474836" and B: "uint B \<le> 5000"
    and x: "is_candidate x" and c: "is_candidate c"
    and t: "tied f B (rnp_of x) (rnp_of c)"
  shows "\<not> better_i (uint f) (uint B) c x"
proof -
  obtain r2 n2 p r2' n2' p' where eq: "x = (r2, n2, p)" "c = (r2', n2', p')"
    by (cases x; cases c) auto
  note x' = x [unfolded eq] and c' = c [unfolded eq]
  from t consider
      (within) "\<not> over_i (uint f) (uint B) x" "\<not> over_i (uint f) (uint B) c"
        "ratio_term (rnp_n2 (rnp_of x)) (rnp_r2 (rnp_of c)) = ratio_term (rnp_n2 (rnp_of c)) (rnp_r2 (rnp_of x))"
    | (over) "over_i (uint f) (uint B) x" "over_i (uint f) (uint B) c"
        "closer_term (rnp_p (rnp_of c)) (rnp_r2 (rnp_of c))
           (clock_diff f (rnp_p (rnp_of x)) (rnp_r2 (rnp_of x)) (rnp_n2 (rnp_of x))) =
         closer_term (rnp_p (rnp_of x)) (rnp_r2 (rnp_of x))
           (clock_diff f (rnp_p (rnp_of c)) (rnp_r2 (rnp_of c)) (rnp_n2 (rnp_of c)))"
    unfolding tied_def within_budget_iff [OF f B x] within_budget_iff [OF f B c] by blast
  then show ?thesis
  proof cases
    case within
    from within(3) have "uint (ratio_term (rnp_n2 (rnp_of x)) (rnp_r2 (rnp_of c)))
        = uint (ratio_term (rnp_n2 (rnp_of c)) (rnp_r2 (rnp_of x)))" by simp
    then have "ratio_i x c = ratio_i c x"
      unfolding eq cross_terms(2) [OF f B x' c'] cross_terms(2) [OF f B c' x'] .
    with within(1,2) show ?thesis by (simp add: better_i_def)
  next
    case over
    from over(3) have "uint (closer_term (rnp_p (rnp_of c)) (rnp_r2 (rnp_of c))
           (clock_diff f (rnp_p (rnp_of x)) (rnp_r2 (rnp_of x)) (rnp_n2 (rnp_of x)))) =
         uint (closer_term (rnp_p (rnp_of x)) (rnp_r2 (rnp_of x))
           (clock_diff f (rnp_p (rnp_of c)) (rnp_r2 (rnp_of c)) (rnp_n2 (rnp_of c))))" by simp
    then have "prod_i c * diff_i (uint f) x = prod_i x * diff_i (uint f) c"
      unfolding eq cross_terms(1) [OF f B x' c'] cross_terms(1) [OF f B c' x'] .
    with over(1,2) show ?thesis by (simp add: better_i_def)
  qed
qed

text \<open>
  C10: the replacing comparisons are strict.  A candidate tied with the best record
  (both within the budget with \<open>n2 * best.r2^2 = best.n2 * r2^2\<close>, or both over it with
  \<open>best.p * best.r2 * diff = p * r2 * diff_best\<close>) leaves the best record as it is; and
  for every non-negative \<open>int\<close> clock that does not take the bypass path, the returned
  triplet is a candidate that no candidate earlier in the enumeration order (ascending
  \<open>r2\<close>, then \<open>n2\<close>, then \<open>p\<close>) is tied with.
\<close>

theorem ties_keep_first_candidate:
  "(\<forall>f B cand best. rnp_p best \<noteq> 0 \<longrightarrow> tied f B cand best \<longrightarrow> update_with f B cand best = best) \<and>
   (\<forall>clock. 0 \<le> clock \<longrightarrow> clock < 2 ^ 31 \<longrightarrow> (word_of_int (clock sdiv 100) :: u64) \<noteq> 5400000 \<longrightarrow>
      (\<exists>c. is_candidate c \<and> wrpll_compute_rnp clock = rnp_of c \<and>
           (\<forall>x. is_candidate x \<longrightarrow> precedes x c \<longrightarrow>
              \<not> tied (word_of_int (clock sdiv 100)) (wrpll_get_budget_for_freq clock)
                  (rnp_of x) (rnp_of c))))"
proof (intro conjI allI impI)
  fix f B cand best
  assume "rnp_p best \<noteq> 0" "tied f B cand best"
  then show "update_with f B cand best = best" by (rule tied_keeps_best)
next
  fix clock :: int
  assume clock: "0 \<le> clock" "clock < 2 ^ 31"
    and nb: "(word_of_int (clock sdiv 100) :: u64) \<noteq> 5400000"
  let ?f = "word_of_int (clock sdiv 100) :: u64" and ?B = "wrpll_get_budget_for_freq clock"
  note f = freq2k_nonneg_clock(2) [OF clock] and B = budget_le_5000 [of clock]
  from fold_first_max_candidates [OF f B] obtain c where c: "is_candidate c"
    and res: "fold (\<lambda>c. update_with ?f ?B (rnp_of c)) candidates sentinel = rnp_of c"
    and first: "\<And>x. is_candidate x \<Longrightarrow> precedes x c \<Longrightarrow> better_i (uint ?f) (uint ?B) c x"
    by blast
  have "\<not> tied ?f ?B (rnp_of x) (rnp_of c)" if x: "is_candidate x" and p: "precedes x c" for x
    using tied_not_better_i [OF f B x c] first [OF x p] by blast
  then show "\<exists>c. is_candidate c \<and> wrpll_compute_rnp clock = rnp_of c \<and>
           (\<forall>x. is_candidate x \<longrightarrow> precedes x c \<longrightarrow> \<not> tied ?f ?B (rnp_of x) (rnp_of c))"
    using c res compute_as_fold [OF nb] by (intro exI [of _ c]) simp
qed

theorem ties_keep_first_candidate_witness:
  "rnp_p \<lparr>rnp_p = 6, rnp_n2 = 20, rnp_r2 = 18\<rparr> \<noteq> 0 \<and>
   tied 1000000 1000 \<lparr>rnp_p = 12, rnp_n2 = 80, rnp_r2 = 36\<rparr>
     \<lparr>rnp_p = 6, rnp_n2 = 20, rnp_r2 = 18\<rparr> \<and>
   update_with 1000000 1000 \<lparr>rnp_p = 12, rnp_n2 = 80, rnp_r2 = 36\<rparr>
     \<lparr>rnp_p = 6, rnp_n2 = 20, rnp_r2 = 18\<rparr> = \<lparr>rnp_p = 6, rnp_n2 = 20, rnp_r2 = 18\<rparr> \<and>
   (0::int) \<le> 19750000 \<and> (19750000::int) < 2 ^ 31 \<and>
   (word_of_int (19750000 sdiv 100) :: u64) \<noteq> 5400000 \<and>
   (\<exists>c. is_candidate c \<and> wrpll_compute_rnp 19750000 = rnp_of c)"
proof -
  have h: "rnp_p \<lparr>rnp_p = 6, rnp_n2 = 20, rnp_r2 = 18\<rparr> \<noteq> 0"
      "tied 1000000 1000 \<lparr>rnp_p = 12, rnp_n2 = 80, rnp_r2 = 36\<rparr>
         \<lparr>rnp_p = 6, rnp_n2 = 20, rnp_r2 = 18\<rparr>"
    by (simp_all add: tied_def within_budget_def update_eval_defs)
  have k: "(0::int) \<le> 19750000" "(19750000::int) < 2 ^ 31"
      "(word_of_int (19750000 sdiv 100) :: u64) \<noteq> 5400000"
    by (simp_all add: signed_divide_int_def)
  have 1: "update_with 1000000 1000 \<lparr>rnp_p = 12, rnp_n2 = 80, rnp_r2 = 36\<rparr>
     \<lparr>rnp_p = 6, rnp_n2 = 20, rnp_r2 = 18\<rparr> = \<lparr>rnp_p = 6, rnp_n2 = 20, rnp_r2 = 18\<rparr>"
    by (rule ties_keep_first_candidate [THEN conjunct1, rule_format, OF h])
  from ties_keep_first_candidate [THEN conjunct2, rule_format, OF k]
  have 2: "\<exists>c. is_candidate c \<and> wrpll_compute_rnp 19750000 = rnp_of c"
    by blast
  from h k 1 2 show ?thesis by blast
qed

section \<open>Soundness of the checks\<close>

subsection \<open>The two bounded loops\<close>

lemma all_step_sound:
  assumes "all_step P d a b" and "0 < d" and "a \<le> x" and "x \<le> b" and "d dvd x - a"
  shows "P x"
  using assms
proof (induction P d a b rule: all_step.induct)
  case (1 P d a b)
  from "1.prems" have run: "\<not> (b < a \<or> d \<le> 0)" by auto
  with "1.prems"(1) have here: "P a" and rest: "all_step P d (a + d) b"
    by (subst (asm) all_step.simps, simp)+
  show ?case
  proof (cases "x = a")
    case True
    with here show ?thesis by simp
  next
    case False
    with "1.prems" have "0 < x - a" by simp
    with \<open>d dvd x - a\<close> have "d \<le> x - a" by (rule zdvd_imp_le)
    then have "a + d \<le> x" by simp
    moreover have "d dvd x - (a + d)"
      using \<open>d dvd x - a\<close> by (simp add: diff_diff_eq [symmetric])
    ultimately show ?thesis
      using "1.IH" [OF run rest \<open>0 < d\<close> _ \<open>x \<le> b\<close>] by simp
  qed
qed

lemma scan_down_sound:
  assumes "scan_down stop P k"
    and "\<And>i j. i \<le> j \<Longrightarrow> stop j \<Longrightarrow> stop i"
    and "0 \<le> n" and "n \<le> k" and "\<not> stop n"
  shows "P n"
  using assms
proof (induction stop P k rule: scan_down.induct)
  case (1 stop P k)
  have ns: "\<not> stop k"
    using "1.prems"(2) [of n k] "1.prems"(4,5) by blast
  with "1.prems"(3,4) have run: "\<not> (k < 0 \<or> stop k)" by auto
  with "1.prems"(1) have here: "P k" and rest: "scan_down stop P (k - 1)"
    by (subst (asm) scan_down.simps, simp)+
  show ?case
  proof (cases "n = k")
    case True
    with here show ?thesis by simp
  next
    case False
    with "1.prems"(4) have le: "n \<le> k - 1" by simp
    show ?thesis
    proof (rule "1.IH" [OF run rest])
      show "stop i" if "i \<le> j" "stop j" for i j
        using that by (rule "1.prems"(2))
    qed (use le "1.prems"(3,5) in auto)
  qed
qed

lemma even_up_even: "even (even_up c)"
  by (simp add: even_up_def)

lemma even_up_ge: "c \<le> even_up c"
  unfolding even_up_def by presburger

lemma even_up_le: "even_up c \<le> c + 1"
  unfolding even_up_def by presburger

lemma even_less_even_up: "even p \<Longrightarrow> p < even_up c \<Longrightarrow> p < c"
  unfolding even_up_def by presburger

lemma even_ge_even_up: "even p \<Longrightarrow> c \<le> p \<Longrightarrow> even_up c \<le> p"
  unfolding even_up_def by presburger

subsection \<open>Integer division and products\<close>

lemma int_div_bounds:
  fixes a b :: int
  assumes "0 < b"
  shows "b * (a div b) \<le> a" and "a < b * (a div b) + b"
proof -
  have "b * (a div b) + a mod b = a" by simp
  moreover have "0 \<le> a mod b" "a mod b < b" using assms by simp_all
  ultimately show "b * (a div b) \<le> a" and "a < b * (a div b) + b" by linarith+
qed

lemma div_less_imp_less_mult:
  fixes a b q :: int
  assumes "0 < b" and "a div b < q"
  shows "a < b * q"
proof -
  have "b * (a div b + 1) \<le> b * q"
    using assms by (intro mult_left_mono) simp_all
  with int_div_bounds(2) [OF assms(1), of a] show ?thesis
    by (simp add: algebra_simps)
qed

lemma le_div_imp_mult_le:
  fixes a b q :: int
  assumes "0 < b" and "q \<le> a div b"
  shows "b * q \<le> a"
proof -
  have "b * q \<le> b * (a div b)"
    using assms by (intro mult_left_mono) simp_all
  with int_div_bounds(1) [OF assms(1), of a] show ?thesis by simp
qed

lemma mult_le_imp_le_div:
  fixes a b q :: int
  assumes "0 < b" and "b * q \<le> a"
  shows "q \<le> a div b"
  using div_less_imp_less_mult [OF assms(1), of a q] assms(2) by linarith

lemma less_ceil_div_imp:
  fixes a b q :: int
  assumes "0 < b" and "q < (a + b - 1) div b"
  shows "b * q < a"
proof -
  have "q + 1 \<le> (a + b - 1) div b" using assms(2) by simp
  from le_div_imp_mult_le [OF assms(1) this] show ?thesis
    by (simp add: algebra_simps)
qed

subsection \<open>Within the budget, over the integers\<close>

lemma within_i_iff:
  "\<not> over_i F B (r2, n2, p) \<longleftrightarrow>
     (1000000 - B) * F * int r2 * int p \<le> 5400000000000 * int n2 \<and>
     5400000000000 * int n2 \<le> (1000000 + B) * F * int r2 * int p"
proof -
  define X Z where "X = F * int p * int r2" and "Z = B * X"
  have 1: "F * B * int p * int r2 = Z"
    and 2: "(1000000 - B) * F * int r2 * int p = 1000000 * X - Z"
    and 3: "(1000000 + B) * F * int r2 * int p = 1000000 * X + Z"
    by (simp_all add: X_def Z_def algebra_simps)
  define Y where "Y = 5400000 * int n2"
  have 4: "5400000000000 * int n2 = 1000000 * Y"
    by (simp add: Y_def)
  have "(\<not> Z < 1000000 * \<bar>X - Y\<bar>) =
     (1000000 * X - Z \<le> 1000000 * Y \<and> 1000000 * Y \<le> 1000000 * X + Z)"
    by (cases "X < Y") (simp_all add: abs_if, linarith+)
  then show ?thesis
    unfolding over_i_def diff_i_def prod.case 1 2 3 4 X_def [symmetric] Y_def [symmetric] .
qed

lemma vco_bounds_nat:
  fixes r n :: nat
  shows "2400 * r div 2700 + 1 \<le> n \<longleftrightarrow> 8 * r < 9 * n"
    and "n \<le> 4800 * r div 2700 \<longleftrightarrow> 9 * n \<le> 16 * r"
proof -
  have "(300 * (8 * r)) div (300 * 9) = (8 * r) div 9"
    by (rule div_mult_mult1) simp
  then have lo: "2400 * r div 2700 = 8 * r div 9" by simp
  have "(300 * (16 * r)) div (300 * 9) = (16 * r) div 9"
    by (rule div_mult_mult1) simp
  then have hi: "4800 * r div 2700 = 16 * r div 9" by simp
  have "8 * r div 9 < n \<longleftrightarrow> 8 * r < n * 9"
    by (rule div_less_iff_less_mult) simp
  then show "2400 * r div 2700 + 1 \<le> n \<longleftrightarrow> 8 * r < 9 * n"
    unfolding lo by (simp add: mult.commute Suc_le_eq)
  have "n \<le> 16 * r div 9 \<longleftrightarrow> n * 9 \<le> 16 * r"
    by (rule less_eq_div_iff_mult_less_eq) simp
  then show "n \<le> 4800 * r div 2700 \<longleftrightarrow> 9 * n \<le> 16 * r"
    unfolding hi by (simp add: mult.commute)
qed

lemma vco_ok_candidate:
  assumes "is_candidate (r2, n2, p)"
  shows "vco_ok (int r2) (int n2)"
proof -
  from assms have "2400 * r2 div 2700 + 1 \<le> n2" "n2 \<le> 4800 * r2 div 2700"
    by (simp_all add: is_candidate_def LC_FREQ_def VCO_MIN_def VCO_MAX_def)
  then have "8 * r2 < 9 * n2" "9 * n2 \<le> 16 * r2"
    by (simp_all only: vco_bounds_nat)
  then have "8 * int r2 < 9 * int n2" "9 * int n2 \<le> 16 * int r2" by linarith+
  then show ?thesis by (simp add: vco_ok_def)
qed

lemma candidate_of_ints:
  assumes "14 \<le> r2s" "r2s \<le> 112" "vco_ok r2s n2s" "2 \<le> ps" "ps \<le> 64" "even ps"
  shows "is_candidate (nat r2s, nat n2s, nat ps)"
proof -
  from assms(1,3) have n: "0 \<le> n2s" by (simp add: vco_ok_def)
  define r n q where "r = nat r2s" and "n = nat n2s" and "q = nat ps"
  have i: "r2s = int r" "n2s = int n" "ps = int q"
    using assms n by (simp_all add: r_def n_def q_def)
  from assms(3) have "8 * r < 9 * n" "9 * n \<le> 16 * r"
    unfolding vco_ok_def i by linarith+
  then have "2400 * r div 2700 + 1 \<le> n" "n \<le> 4800 * r div 2700"
    by (simp_all only: vco_bounds_nat)
  moreover have "14 \<le> r" "r \<le> 112" "2 \<le> q" "q \<le> 64" "even q"
    using assms unfolding i by simp_all
  moreover from \<open>even q\<close> \<open>2 \<le> q\<close> have "(q - 2) mod 2 = 0" by presburger
  ultimately show ?thesis
    unfolding r_def [symmetric] n_def [symmetric] q_def [symmetric]
    by (simp add: is_candidate_def LC_FREQ_def REF_MAX_def REF_MIN_def VCO_MIN_def
          VCO_MAX_def P_MIN_def P_MAX_def P_INC_def)
qed

subsection \<open>The reference triplet within the budget\<close>

lemma ratio_below:
  fixes E Fp r n q S n2s :: int
  assumes "0 < E" and "0 < r" and "0 \<le> S"
    and w: "E * n \<le> Fp * r * q"
    and lt: "(Fp * S) * q < E * n2s * r"
  shows "n * S < n2s * (r * r)"
proof -
  have "E * n * S \<le> Fp * r * q * S"
    using w \<open>0 \<le> S\<close> by (rule mult_right_mono)
  also have "\<dots> = r * ((Fp * S) * q)"
    by (simp add: ac_simps)
  also have "\<dots> < r * (E * n2s * r)"
    using lt \<open>0 < r\<close> by (rule mult_strict_left_mono)
  finally have "E * (n * S) < E * (n2s * (r * r))"
    by (simp add: ac_simps)
  then show ?thesis
    using \<open>0 < E\<close> by (simp add: mult_less_cancel_left_pos)
qed

lemma high_p_over:
  fixes E Fm r n q :: int
  assumes "0 < r" and "9 * n \<le> 16 * r" and "0 < E"
    and w: "Fm * r * q \<le> E * n" and big: "16 * E < (9 * Fm) * q"
  shows False
proof -
  have "E * (9 * n) \<le> E * (16 * r)"
    using assms(2,3) by (intro mult_left_mono) simp_all
  moreover have "(16 * E) * r < ((9 * Fm) * q) * r"
    using big \<open>0 < r\<close> by (rule mult_strict_right_mono)
  moreover have "9 * (Fm * r * q) \<le> 9 * (E * n)"
    using w by simp
  ultimately show False
    by (simp add: ac_simps)
qed

lemma low_p_over:
  fixes E Fp r n q :: int
  assumes "0 < r" and "8 * r < 9 * n" and "0 < E"
    and w: "E * n \<le> Fp * r * q" and small: "(9 * Fp) * q \<le> 8 * E"
  shows False
proof -
  have "E * (8 * r) < E * (9 * n)"
    using assms(2,3) by (intro mult_strict_left_mono) simp_all
  moreover have "((9 * Fp) * q) * r \<le> (8 * E) * r"
    using small \<open>0 < r\<close> by (intro mult_right_mono) simp_all
  moreover have "9 * (E * n) \<le> 9 * (Fp * r * q)"
    using w by simp
  ultimately show False
    by (simp add: ac_simps)
qed

lemma check_within_harmless:
  fixes F B r2s n2s ps :: int and r2 n2 p :: nat
  assumes F: "0 < F" and B: "0 \<le> B" "B < 1000000"
    and t: "0 < n2s"
    and chk: "check_within F B r2s n2s ps"
    and x: "is_candidate (r2, n2, p)"
    and w: "\<not> over_i F B (r2, n2, p)"
  shows "harmless_within r2s n2s ps (int r2) (int p) (int n2)"
proof -
  define Fp where "Fp = (1000000 + B) * F"
  define Fm where "Fm = (1000000 - B) * F"
  define E where "E = (5400000000000 :: int)"
  define c1 where "c1 = 8 * E div (9 * Fp)"
  define c2 where "c2 = 16 * E div (9 * Fm)"
  define P1 where "P1 = max 2 (even_up (c1 + 1))"
  define pend where "pend = min 64 (even_up (c2 + 1) - 2)"
  define S where "S = r2s * r2s"
  define R where "R = min 112 (pend * Fp * S div (E * n2s))"
  define r n q where "r = int r2" and "n = int n2" and "q = int p"
  have rows: "all_step (row_within Fp Fm r2s n2s ps P1 pend) 1 14 R"
    using chk
    unfolding check_within_def Let_def Fp_def Fm_def E_def c1_def c2_def P1_def pend_def R_def S_def .
  have pos: "0 < Fp" "0 < Fm" "0 < E"
    using F B by (simp_all add: Fp_def Fm_def E_def)
  have S: "0 \<le> S" by (simp add: S_def)
  note bd = cand_bounds [OF x]
  have rb: "14 \<le> r" "r \<le> 112" "0 \<le> n" "2 \<le> q" "q \<le> 64" "even q"
    using bd by (simp_all add: r_def n_def q_def)
  have vco: "8 * r < 9 * n" "9 * n \<le> 16 * r"
    using vco_ok_candidate [OF x] by (simp_all add: vco_ok_def r_def n_def)
  from w have w1: "Fm * r * q \<le> E * n" and w2: "E * n \<le> Fp * r * q"
    unfolding within_i_iff Fm_def Fp_def E_def r_def n_def q_def by simp_all
  have below: "harmless_within r2s n2s ps r q n" if "(Fp * S) * q < E * n2s * r"
  proof -
    from ratio_below [OF pos(3) _ S w2 that] rb(1)
    have "n * S < n2s * (r * r)" by simp
    then show ?thesis by (simp add: harmless_within_def S_def)
  qed
  have q_le: "q \<le> pend"
  proof (rule ccontr)
    assume "\<not> q \<le> pend"
    with rb(5) have "even_up (c2 + 1) - 2 < q" by (simp add: pend_def)
    with rb(6) even_up_even [of "c2 + 1"] have "even_up (c2 + 1) \<le> q" by presburger
    with even_up_ge [of "c2 + 1"] have "c2 < q" by simp
    moreover have "0 < 9 * Fm" using pos(2) by simp
    ultimately have "16 * E < (9 * Fm) * q"
      unfolding c2_def by (rule div_less_imp_less_mult [rotated])
    from high_p_over [OF _ vco(2) pos(3) w1 this] rb(1) show False by simp
  qed
  have q_ge: "P1 \<le> q"
  proof (rule ccontr)
    assume "\<not> P1 \<le> q"
    with rb(4) have "q < even_up (c1 + 1)" by (simp add: P1_def)
    with rb(6) have "q < c1 + 1" by (rule even_less_even_up)
    then have "q \<le> c1" by simp
    moreover have "0 < 9 * Fp" using pos(1) by simp
    ultimately have "(9 * Fp) * q \<le> 8 * E"
      unfolding c1_def by (rule le_div_imp_mult_le [rotated])
    from low_p_over [OF _ vco(1) pos(3) w2 this] rb(1) show False by simp
  qed
  show ?thesis
  proof (cases "r \<le> R")
    case False
    with rb(2) have "pend * Fp * S div (E * n2s) < r" by (simp add: R_def)
    moreover have "0 < E * n2s" using pos(3) t by simp
    ultimately have "pend * Fp * S < (E * n2s) * r"
      by (rule div_less_imp_less_mult [rotated])
    moreover have "q * (Fp * S) \<le> pend * (Fp * S)"
      using q_le pos(1) S by (intro mult_right_mono) simp_all
    ultimately have "(Fp * S) * q < E * n2s * r"
      by (simp add: ac_simps)
    then show ?thesis
      unfolding r_def [symmetric] q_def [symmetric] n_def [symmetric] by (rule below)
  next
    case True
    have row: "row_within Fp Fm r2s n2s ps P1 pend r"
      using rb(1) True by (intro all_step_sound [OF rows]) simp_all
    define ceil where "ceil = (E * n2s * r + Fp * S - 1) div (Fp * S)"
    define plo where "plo = max P1 (even_up ceil)"
    have cells: "all_step (cell_within Fp Fm r2s n2s ps r) 2 plo pend"
      using row unfolding row_within_def plo_def ceil_def E_def S_def .
    show ?thesis
    proof (cases "plo \<le> q")
      case False
      with q_ge have "q < even_up ceil" by (simp add: plo_def)
      with rb(6) have "q < ceil" by (rule even_less_even_up)
      moreover have "0 < Fp * S \<or> S = 0" using pos(1) S by (auto simp: less_le)
      ultimately have "(Fp * S) * q < E * n2s * r"
      proof -
        assume a: "q < ceil" and b: "0 < Fp * S \<or> S = 0"
        show ?thesis
        proof (cases "S = 0")
          case True
          then show ?thesis using pos(3) t rb(1) by simp
        next
          case False
          with b have "0 < Fp * S" by simp
          from less_ceil_div_imp [OF this a [unfolded ceil_def]] show ?thesis .
        qed
      qed
      then show ?thesis
        unfolding r_def [symmetric] q_def [symmetric] n_def [symmetric] by (rule below)
    next
      case True
      have "even plo"
        unfolding plo_def P1_def max_def using even_up_even by auto
      with rb(6) have "2 dvd q - plo" by simp
      then have cell: "cell_within Fp Fm r2s n2s ps r q"
        using True q_le by (intro all_step_sound [OF cells]) simp_all
      have "n \<le> Fp * r * q div E"
        using pos(3) w2 by (rule mult_le_imp_le_div)
      moreover have "\<not> below E (Fm * r * q) n"
        using w1 by (simp add: below_def)
      moreover have "below E (Fm * r * q) i" if "i \<le> j" "below E (Fm * r * q) j" for i j
      proof -
        have "E * i \<le> E * j" using that(1) pos(3) by (intro mult_left_mono) simp_all
        with that(2) show ?thesis by (simp add: below_def)
      qed
      moreover have "scan_down (below E (Fm * r * q)) (harmless_within r2s n2s ps r q)
          (Fp * r * q div E)"
        using cell unfolding cell_within_def E_def .
      ultimately have "harmless_within r2s n2s ps r q n"
        using rb(3) scan_down_sound [where stop = "below E (Fm * r * q)"
            and P = "harmless_within r2s n2s ps r q" and k = "Fp * r * q div E" and n = n]
        by blast
      then show ?thesis by (simp add: r_def q_def n_def)
    qed
  qed
qed

lemma before_i_precedes:
  "before_i (int r2t) (int n2t) (int pt) (int r2) (int p) (int n2)
     \<longleftrightarrow> precedes (r2, n2, p) (r2t, n2t, pt)"
  by (auto simp: before_i_def precedes_def)

lemma check_within_pinned:
  fixes F B :: int
  assumes F: "0 < F" and B: "0 \<le> B" "B < 1000000"
    and t: "is_candidate (r2t, n2t, pt)"
    and within: "\<not> over_i F B (r2t, n2t, pt)"
    and chk: "check_within F B (int r2t) (int n2t) (int pt)"
    and x: "is_candidate x"
  shows "(precedes x (r2t, n2t, pt) \<longrightarrow> better_i F B (r2t, n2t, pt) x) \<and>
         (precedes (r2t, n2t, pt) x \<longrightarrow> \<not> better_i F B x (r2t, n2t, pt))"
proof (cases "over_i F B x")
  case True
  with within show ?thesis by (simp add: better_i_def)
next
  case False
  obtain r2 n2 p where eq: "x = (r2, n2, p)" by (cases x)
  have n2t: "0 < int n2t" using cand_bounds(3) [OF t] by simp
  from check_within_harmless [OF F B n2t chk x [unfolded eq] False [unfolded eq]]
  have h: "harmless_within (int r2t) (int n2t) (int pt) (int r2) (int p) (int n2)" .
  have vco: "vco_ok (int r2) (int n2)"
    using x unfolding eq by (rule vco_ok_candidate)
  from h vco consider
      (less) "int n2 * (int r2t * int r2t) < int n2t * (int r2 * int r2)"
    | (tie) "int n2 * (int r2t * int r2t) = int n2t * (int r2 * int r2)"
        "\<not> precedes (r2, n2, p) (r2t, n2t, pt)"
    unfolding harmless_within_def before_i_precedes by (auto split: if_splits)
  then show ?thesis
  proof cases
    case less
    then have "ratio_i x (r2t, n2t, pt) < ratio_i (r2t, n2t, pt) x"
      by (simp add: ratio_i_def eq ac_simps)
    with within False show ?thesis by (simp add: better_i_def)
  next
    case tie
    then have "ratio_i x (r2t, n2t, pt) = ratio_i (r2t, n2t, pt) x"
      by (simp add: ratio_i_def eq ac_simps)
    with within False tie(2) show ?thesis by (simp add: better_i_def eq)
  qed
qed

subsection \<open>The reference triplet over the budget\<close>

lemma far_iff:
  fixes W Kn mD :: int
  shows "mD \<le> \<bar>W - Kn\<bar> \<longleftrightarrow> Kn \<le> W - mD \<or> W + mD \<le> Kn"
    and "mD < \<bar>W - Kn\<bar> \<longleftrightarrow> Kn < W - mD \<or> W + mD < Kn"
  by linarith+

lemma check_over_far:
  fixes F :: int and r2 n2 p :: nat
  assumes F: "0 < F"
    and t: "is_candidate (r2t, n2t, pt)"
    and chk: "check_over F (int r2t) (int n2t) (int pt)"
    and x: "is_candidate (r2, n2, p)"
  shows "if precedes (r2, n2, p) (r2t, n2t, pt)
         then prod_i (r2, n2, p) * diff_i F (r2t, n2t, pt) < prod_i (r2t, n2t, pt) * diff_i F (r2, n2, p)
         else prod_i (r2, n2, p) * diff_i F (r2t, n2t, pt) \<le> prod_i (r2t, n2t, pt) * diff_i F (r2, n2, p)"
proof -
  define M where "M = int pt * int r2t"
  define D where "D = \<bar>F * M - 5400000 * int n2t\<bar>"
  define K where "K = M * 5400000"
  define A where "A = M * F - D"
  define C where "C = M * F + D"
  define c1 where "c1 = 8 * K div (9 * C)"
  define c2 where "c2 = 16 * K div (9 * A)"
  define P1 where "P1 = max 2 (even_up (c1 + 1))"
  define pend where "pend = min 64 (even_up (c2 + 1) - 2)"
  define r n q where "r = int r2" and "n = int n2" and "q = int p"
  define V U where "V = q * r * A" and "U = q * r * C"
  from chk have A: "0 < A"
    and rows: "all_step (row_over K A C (int r2t) (int n2t) (int pt) P1 pend) 1 14 112"
    unfolding check_over_def Let_def M_def D_def K_def A_def C_def c1_def c2_def P1_def pend_def
    by simp_all
  note bt = cand_bounds [OF t] and bd = cand_bounds [OF x]
  have M: "0 < M" using bt by (simp add: M_def)
  have K: "0 < K" using M by (simp add: K_def)
  have D: "0 \<le> D" by (simp add: D_def)
  have "0 < M * F" using M F by (rule mult_pos_pos)
  with D have C: "0 < C" by (simp add: C_def)
  have rb: "14 \<le> r" "r \<le> 112" "0 \<le> n" "2 \<le> q" "q \<le> 64" "even q"
    using bd by (simp_all add: r_def n_def q_def)
  have vco: "8 * r < 9 * n" "9 * n \<le> 16 * r"
    using vco_ok_candidate [OF x] by (simp_all add: vco_ok_def r_def n_def)
  have pt: "prod_i (r2t, n2t, pt) = M" and px: "prod_i (r2, n2, p) = q * r"
    by (simp_all add: prod_i_def M_def q_def r_def)
  have dt: "diff_i F (r2t, n2t, pt) = D"
    by (simp add: diff_i_def D_def M_def ac_simps)
  have "M * diff_i F (r2, n2, p) = \<bar>M * (F * q * r - 5400000 * n)\<bar>"
    using M by (simp add: diff_i_def abs_mult q_def r_def n_def)
  also have "M * (F * q * r - 5400000 * n) = (q * r) * (M * F) - K * n"
    by (simp add: K_def algebra_simps)
  finally have dx: "M * diff_i F (r2, n2, p) = \<bar>(q * r) * (M * F) - K * n\<bar>" .
  have VU: "(q * r) * (M * F) - (q * r) * D = V" "(q * r) * (M * F) + (q * r) * D = U"
    by (simp_all add: V_def U_def A_def C_def algebra_simps)
  have goal_iff:
    "(q * r) * D \<le> M * diff_i F (r2, n2, p) \<longleftrightarrow> K * n \<le> V \<or> U \<le> K * n"
    "(q * r) * D < M * diff_i F (r2, n2, p) \<longleftrightarrow> K * n < V \<or> U < K * n"
    unfolding dx far_iff VU by simp_all
  have high: "K * n < V" if "pend < q"
  proof -
    from that rb(5) have "even_up (c2 + 1) - 2 < q" by (simp add: pend_def)
    with rb(6) even_up_even [of "c2 + 1"] have "even_up (c2 + 1) \<le> q" by presburger
    with even_up_ge [of "c2 + 1"] have "c2 < q" by simp
    moreover have "0 < 9 * A" using A by simp
    ultimately have "16 * K < (9 * A) * q"
      unfolding c2_def by (rule div_less_imp_less_mult [rotated])
    then have "(16 * K) * r < ((9 * A) * q) * r"
      using rb(1) by (intro mult_strict_right_mono) simp_all
    moreover have "K * (9 * n) \<le> K * (16 * r)"
      using vco(2) K by (intro mult_left_mono) simp_all
    ultimately have "9 * (K * n) < 9 * V"
      by (simp add: V_def ac_simps)
    then show ?thesis by simp
  qed
  have low: "U < K * n" if "q < P1"
  proof -
    from that rb(4) have "q < even_up (c1 + 1)" by (simp add: P1_def)
    with rb(6) have "q < c1 + 1" by (rule even_less_even_up)
    then have "q \<le> c1" by simp
    moreover have "0 < 9 * C" using C by simp
    ultimately have "(9 * C) * q \<le> 8 * K"
      unfolding c1_def by (rule le_div_imp_mult_le [rotated])
    then have "((9 * C) * q) * r \<le> (8 * K) * r"
      using rb(1) by (intro mult_right_mono) simp_all
    moreover have "K * (8 * r) < K * (9 * n)"
      using vco(1) K by (intro mult_strict_left_mono) simp_all
    ultimately have "9 * U < 9 * (K * n)"
      by (simp add: U_def ac_simps)
    then show ?thesis by simp
  qed
  have mid: "if precedes (r2, n2, p) (r2t, n2t, pt) then U < K * n else U \<le> K * n \<or> K * n = V"
    if in_range: "P1 \<le> q" "q \<le> pend" and nb: "\<not> K * n < V" and le: "n \<le> U div K"
  proof -
    have row: "row_over K A C (int r2t) (int n2t) (int pt) P1 pend r"
      using rb(1,2) by (intro all_step_sound [OF rows]) simp_all
    then have cells: "all_step (cell_over K A C (int r2t) (int n2t) (int pt) r) 2 P1 pend"
      by (simp only: row_over_def)
    have "even P1"
      unfolding P1_def max_def using even_up_even by auto
    with rb(6) have "2 dvd q - P1" by simp
    then have "cell_over K A C (int r2t) (int n2t) (int pt) r q"
      using in_range by (intro all_step_sound [OF cells]) simp_all
    then have scan: "scan_down (below K V) (harmless_over K V U (int r2t) (int n2t) (int pt) r q)
        (U div K)"
      by (simp only: cell_over_def V_def U_def)
    have mono: "below K V i" if "i \<le> j" "below K V j" for i j
    proof -
      have "K * i \<le> K * j" using that(1) K by (intro mult_left_mono) simp_all
      with that(2) show ?thesis by (simp add: below_def)
    qed
    have "\<not> below K V n" using nb by (simp add: below_def)
    with scan mono rb(3) le
    have "harmless_over K V U (int r2t) (int n2t) (int pt) r q n"
      using scan_down_sound [where stop = "below K V"
          and P = "harmless_over K V U (int r2t) (int n2t) (int pt) r q" and k = "U div K" and n = n]
      by blast
    moreover have "vco_ok r n"
      using vco by (simp add: vco_ok_def)
    ultimately show ?thesis
      by (simp add: harmless_over_def r_def q_def n_def before_i_precedes)
  qed
  have above: "U < K * n" if "\<not> n \<le> U div K"
  proof -
    from that have "U div K < n" by simp
    with K show ?thesis by (rule div_less_imp_less_mult)
  qed
  have "if precedes (r2, n2, p) (r2t, n2t, pt)
        then K * n < V \<or> U < K * n else K * n \<le> V \<or> U \<le> K * n"
    using high low mid above by (cases "P1 \<le> q"; cases "q \<le> pend";
      cases "K * n < V"; cases "n \<le> U div K") (auto split: if_splits)
  then show ?thesis
    unfolding pt px dt goal_iff by simp
qed

lemma check_over_pinned:
  fixes F B :: int
  assumes F: "0 < F" and B: "0 \<le> B"
    and t: "is_candidate (r2t, n2t, pt)"
    and over: "over_i F B (r2t, n2t, pt)"
    and chk: "check_over F (int r2t) (int n2t) (int pt)"
    and x: "is_candidate x"
  shows "(precedes x (r2t, n2t, pt) \<longrightarrow> better_i F B (r2t, n2t, pt) x) \<and>
         (precedes (r2t, n2t, pt) x \<longrightarrow> \<not> better_i F B x (r2t, n2t, pt))"
proof -
  obtain r2 n2 p where eq: "x = (r2, n2, p)" by (cases x)
  let ?t = "(r2t, n2t, pt)"
  note far = check_over_far [OF F t chk x [unfolded eq], folded eq]
  then have weak: "prod_i x * diff_i F ?t \<le> prod_i ?t * diff_i F x"
    by (auto split: if_splits)
  have M: "0 < prod_i ?t" using t by (rule prod_i_pos)
  have m: "0 < prod_i x" using x by (rule prod_i_pos)
  have ot: "(F * B * prod_i ?t) < 1000000 * diff_i F ?t"
    using over by (simp add: over_i_def prod_i_def ac_simps)
  have "(F * B * prod_i x) * prod_i ?t = (F * B * prod_i ?t) * prod_i x"
    by (simp add: ac_simps)
  also have "\<dots> < (1000000 * diff_i F ?t) * prod_i x"
    using ot m by (rule mult_strict_right_mono)
  also have "\<dots> = 1000000 * (prod_i x * diff_i F ?t)"
    by (simp add: ac_simps)
  also have "\<dots> \<le> 1000000 * (prod_i ?t * diff_i F x)"
    using weak by simp
  also have "\<dots> = (1000000 * diff_i F x) * prod_i ?t"
    by (simp add: ac_simps)
  finally have "F * B * prod_i x < 1000000 * diff_i F x"
    using M by (simp add: mult_less_cancel_right_pos)
  then have ox: "over_i F B x"
    by (simp add: over_i_def prod_i_def eq ac_simps)
  show ?thesis
  proof (intro conjI impI)
    assume "precedes x ?t"
    with far have "prod_i x * diff_i F ?t < prod_i ?t * diff_i F x" by simp
    with over ox show "better_i F B ?t x" by (simp add: better_i_def)
  next
    assume "precedes ?t x"
    from weak over ox show "\<not> better_i F B x ?t" by (simp add: better_i_def not_less)
  qed
qed

lemma check_entry_sound:
  assumes chk: "check_entry clock B ps n2s r2s"
    and B: "B = uint (wrpll_get_budget_for_freq clock)"
  shows "wrpll_compute_rnp clock = rnp_of (nat r2s, nat n2s, nat ps)"
proof -
  define F where "F = clock div 100"
  let ?f = "word_of_int (clock sdiv 100) :: u64" and ?B = "wrpll_get_budget_for_freq clock"
  from chk have clock: "100 \<le> clock" "clock < 2147483648" and nb: "F \<noteq> 5400000"
    and tc: "14 \<le> r2s" "r2s \<le> 112" "vco_ok r2s n2s" "2 \<le> ps" "ps \<le> 64" "even ps"
    and sel: "if F * B * ps * r2s < 1000000 * \<bar>F * ps * r2s - 5400000 * n2s\<bar>
              then check_over F r2s n2s ps else check_within F B r2s n2s ps"
    unfolding check_entry_def Let_def F_def by simp_all
  from clock have c: "0 \<le> clock" "clock < 2 ^ 31" by simp_all
  note f = freq2k_nonneg_clock [OF c]
  have uf: "uint ?f = F" using f(1) by (simp add: F_def)
  have Fpos: "0 < F" using clock(1) by (simp add: F_def)
  have Bb: "0 \<le> B" "B < 1000000"
    using budget_le_5000 [of clock] by (simp_all add: B)
  have "uint ?f \<noteq> uint (5400000 :: u64)" using nb uf by simp
  then have nbw: "?f \<noteq> 5400000" by auto
  define r2t n2t pt where "r2t = nat r2s" and "n2t = nat n2s" and "pt = nat ps"
  have n0: "0 \<le> n2s" using tc(1,3) by (simp add: vco_ok_def)
  have ints: "r2s = int r2t" "n2s = int n2t" "ps = int pt"
    using tc n0 by (simp_all add: r2t_def n2t_def pt_def)
  have t: "is_candidate (r2t, n2t, pt)"
    unfolding r2t_def n2t_def pt_def using tc by (rule candidate_of_ints)
  have ov: "over_i F B (r2t, n2t, pt) \<longleftrightarrow>
      F * B * ps * r2s < 1000000 * \<bar>F * ps * r2s - 5400000 * n2s\<bar>"
    by (simp add: over_i_def diff_i_def ints)
  have pinned: "(precedes x (r2t, n2t, pt) \<longrightarrow> better_i F B (r2t, n2t, pt) x) \<and>
         (precedes (r2t, n2t, pt) x \<longrightarrow> \<not> better_i F B x (r2t, n2t, pt))"
    if x: "is_candidate x" for x
  proof (cases "over_i F B (r2t, n2t, pt)")
    case True
    with sel ov have "check_over F (int r2t) (int n2t) (int pt)" by (simp add: ints)
    from check_over_pinned [OF Fpos Bb(1) t True this x] show ?thesis .
  next
    case False
    with sel ov have "check_within F B (int r2t) (int n2t) (int pt)" by (simp add: ints)
    from check_within_pinned [OF Fpos Bb t False this x] show ?thesis .
  qed
  have "fold (\<lambda>c. update_with ?f ?B (rnp_of c)) candidates sentinel = rnp_of (r2t, n2t, pt)"
  proof (rule search_pinned [OF f(2) budget_le_5000 t])
    show "better_i (uint ?f) (uint ?B) (r2t, n2t, pt) x"
      if "is_candidate x" "precedes x (r2t, n2t, pt)" for x
      using pinned [OF that(1)] that(2) unfolding uf B by simp
    show "\<not> better_i (uint ?f) (uint ?B) x (r2t, n2t, pt)"
      if "is_candidate x" "precedes (r2t, n2t, pt) x" for x
      using pinned [OF that(1)] that(2) unfolding uf B by simp
  qed
  then show ?thesis
    unfolding compute_as_fold [OF nbw] r2t_def n2t_def pt_def .
qed

section \<open>The reference table\<close>

lemma check_ref_sound:
  assumes "check_ref ref"
  shows "entry_ok ref"
proof -
  have "wrpll_compute_rnp (sint (tc_clock ref)) =
      rnp_of (nat (uint (tc_r2 ref)), nat (uint (tc_n2 ref)), nat (uint (tc_p ref)))"
    using assms unfolding check_ref_def by (rule check_entry_sound) simp
  then show ?thesis
    by (simp add: entry_ok_def rnp_of_def flip: unat_eq_nat_uint)
qed

lemmas budget_eval = wrpll_get_budget_for_freq_def budget_0_freqs_def budget_1500_freqs_def
  budget_2000_freqs_def budget_4000_freqs_def budget_5000_freqs_def

lemmas check_eval = check_entry_def check_within_def check_over_def row_within_def
  cell_within_def row_over_def cell_over_def harmless_within_def harmless_over_def
  below_def vco_ok_def before_i_def even_up_def all_step.simps scan_down.simps Let_def
  max_def min_def if_True if_False simp_thms
  rel_simps arith_simps arith_special minus_minus mult_zero_left mult_zero_right mult_1_right
  even_numeral odd_numeral numeral_neq_zero
  div_0 one_div_numeral numeral_div_numeral numeral_One
  divmod_cancel divmod_steps divmod_trivial divmod_step_def
  euclidean_size_int_less_eq_iff case_prod_beta fst_conv snd_conv

lemma table_rows_1:
  "list_all check_ref
    [TC 19750000 38 25 18,
     TC 20000000 48 32 18,
     TC 21000000 36 21 15,
     TC 21912000 42 29 17,
     TC 22000000 36 22 15,
     TC 23000000 36 23 15,
     TC 23500000 40 40 23,
     TC 23750000 26 16 14]"
  apply (simp add: check_ref_def budget_eval)
  apply (simp only: check_eval cong: if_weak_cong)
  done

lemma table_rows_2:
  "list_all check_ref
    [TC 24000000 36 24 15,
     TC 25000000 36 25 15,
     TC 25175000 26 40 33,
     TC 25200000 30 21 15,
     TC 26000000 36 26 15,
     TC 27000000 30 21 14,
     TC 27027000 18 100 111,
     TC 27500000 30 29 19]"
  apply (simp add: check_ref_def budget_eval)
  apply (simp only: check_eval cong: if_weak_cong)
  done

lemma table_rows_3:
  "list_all check_ref
    [TC 28000000 34 30 17,
     TC 28320000 26 30 22,
     TC 28322000 32 42 25,
     TC 28750000 24 23 18,
     TC 29000000 30 29 18,
     TC 29750000 32 30 17,
     TC 30000000 30 25 15,
     TC 30750000 30 41 24]"
  apply (simp add: check_ref_def budget_eval)
  apply (simp only: check_eval cong: if_weak_cong)
  done

lemma table_rows_4:
  "list_all check_ref
    [TC 31000000 30 31 18,
     TC 31500000 30 28 16,
     TC 32000000 30 32 18,
     TC 32500000 28 32 19,
     TC 33000000 24 22 15,
     TC 34000000 28 30 17,
     TC 35000000 26 32 19,
     TC 35500000 24 30 19]"
  apply (simp add: check_ref_def budget_eval)
  apply (simp only: check_eval cong: if_weak_cong)
  done

lemma table_rows_5:
  "list_all check_ref
    [TC 36000000 26 26 15,
     TC 36750000 26 46 26,
     TC 37000000 24 23 14,
     TC 37762500 22 40 26,
     TC 37800000 20 21 15,
     TC 38000000 24 27 16,
     TC 38250000 24 34 20,
     TC 39000000 24 26 15]"
  apply (simp add: check_ref_def budget_eval)
  apply (simp only: check_eval cong: if_weak_cong)
  done

lemma table_rows_6:
  "list_all check_ref
    [TC 40000000 24 32 18,
     TC 40500000 20 21 14,
     TC 40541000 22 147 89,
     TC 40750000 18 19 14,
     TC 41000000 16 17 14,
     TC 41500000 22 44 26,
     TC 41540000 22 44 26,
     TC 42000000 18 21 15]"
  apply (simp add: check_ref_def budget_eval)
  apply (simp only: check_eval cong: if_weak_cong)
  done

lemma table_rows_7:
  "list_all check_ref
    [TC 42500000 22 45 26,
     TC 43000000 20 43 27,
     TC 43163000 20 24 15,
     TC 44000000 18 22 15,
     TC 44900000 20 108 65,
     TC 45000000 20 25 15,
     TC 45250000 20 52 31,
     TC 46000000 18 23 15]"
  apply (simp add: check_ref_def budget_eval)
  apply (simp only: check_eval cong: if_weak_cong)
  done

lemma table_rows_8:
  "list_all check_ref
    [TC 46750000 20 45 26,
     TC 47000000 20 40 23,
     TC 48000000 18 24 15,
     TC 49000000 18 49 30,
     TC 49500000 16 22 15,
     TC 50000000 18 25 15,
     TC 50500000 18 32 19,
     TC 51000000 18 34 20]"
  apply (simp add: check_ref_def budget_eval)
  apply (simp only: check_eval cong: if_weak_cong)
  done

lemma table_rows_9:
  "list_all check_ref
    [TC 52000000 18 26 15,
     TC 52406000 14 34 25,
     TC 53000000 16 22 14,
     TC 54000000 16 24 15,
     TC 54054000 16 173 108,
     TC 54500000 14 24 17,
     TC 55000000 12 22 18,
     TC 56000000 14 45 31]"
  apply (simp add: check_ref_def budget_eval)
  apply (simp only: check_eval cong: if_weak_cong)
  done

lemma table_rows_10:
  "list_all check_ref
    [TC 56250000 16 25 15,
     TC 56750000 14 25 17,
     TC 57000000 16 27 16,
     TC 58000000 16 43 25,
     TC 58250000 16 38 22,
     TC 58750000 16 40 23,
     TC 59000000 14 26 17,
     TC 59341000 14 40 26]"
  apply (simp add: check_ref_def budget_eval)
  apply (simp only: check_eval cong: if_weak_cong)
  done

lemma table_rows_11:
  "list_all check_ref
    [TC 59400000 16 44 25,
     TC 60000000 16 32 18,
     TC 60500000 12 39 29,
     TC 61000000 14 49 31,
     TC 62000000 14 37 23,
     TC 62250000 14 42 26,
     TC 63000000 12 21 15,
     TC 63500000 14 28 17]"
  apply (simp add: check_ref_def budget_eval)
  apply (simp only: check_eval cong: if_weak_cong)
  done

lemma table_rows_12:
  "list_all check_ref
    [TC 64000000 12 27 19,
     TC 65000000 14 32 19,
     TC 65250000 12 29 20,
     TC 65500000 12 32 22,
     TC 66000000 12 22 15,
     TC 66667000 14 38 22,
     TC 66750000 10 21 17,
     TC 67000000 14 33 19]"
  apply (simp add: check_ref_def budget_eval)
  apply (simp only: check_eval cong: if_weak_cong)
  done

lemma table_rows_13:
  "list_all check_ref
    [TC 67750000 14 58 33,
     TC 68000000 14 30 17,
     TC 68179000 14 46 26,
     TC 68250000 14 46 26,
     TC 69000000 12 23 15,
     TC 70000000 12 28 18,
     TC 71000000 12 30 19,
     TC 72000000 12 24 15]"
  apply (simp add: check_ref_def budget_eval)
  apply (simp only: check_eval cong: if_weak_cong)
  done

lemma table_rows_14:
  "list_all check_ref
    [TC 73000000 10 23 17,
     TC 74000000 12 23 14,
     TC 74176000 8 100 91,
     TC 74250000 10 22 16,
     TC 74481000 12 43 26,
     TC 74500000 10 29 21,
     TC 75000000 12 25 15,
     TC 75250000 10 39 28]"
  apply (simp add: check_ref_def budget_eval)
  apply (simp only: check_eval cong: if_weak_cong)
  done

lemma table_rows_15:
  "list_all check_ref
    [TC 76000000 12 27 16,
     TC 77000000 12 53 31,
     TC 78000000 12 26 15,
     TC 78750000 12 28 16,
     TC 79000000 10 38 26,
     TC 79500000 10 28 19,
     TC 80000000 12 32 18,
     TC 81000000 10 21 14]"
  apply (simp add: check_ref_def budget_eval)
  apply (simp only: check_eval cong: if_weak_cong)
  done

lemma table_rows_16:
  "list_all check_ref
    [TC 81081000 6 100 111,
     TC 81624000 8 29 24,
     TC 82000000 8 17 14,
     TC 83000000 10 40 26,
     TC 83950000 10 28 18,
     TC 84000000 10 28 18,
     TC 84750000 6 16 17,
     TC 85000000 6 17 18]"
  apply (simp add: check_ref_def budget_eval)
  apply (simp only: check_eval cong: if_weak_cong)
  done

lemma table_rows_17:
  "list_all check_ref
    [TC 85250000 10 30 19,
     TC 85750000 10 27 17,
     TC 86000000 10 43 27,
     TC 87000000 10 29 18,
     TC 88000000 10 44 27,
     TC 88500000 10 41 25,
     TC 89000000 10 28 17,
     TC 89012000 6 90 91]"
  apply (simp add: check_ref_def budget_eval)
  apply (simp only: check_eval cong: if_weak_cong)
  done

lemma table_rows_18:
  "list_all check_ref
    [TC 89100000 10 33 20,
     TC 90000000 10 25 15,
     TC 91000000 10 32 19,
     TC 92000000 10 46 27,
     TC 93000000 10 31 18,
     TC 94000000 10 40 23,
     TC 94500000 10 28 16,
     TC 95000000 10 44 25]"
  apply (simp add: check_ref_def budget_eval)
  apply (simp only: check_eval cong: if_weak_cong)
  done

lemma table_rows_19:
  "list_all check_ref
    [TC 95654000 10 39 22,
     TC 95750000 10 39 22,
     TC 96000000 10 32 18,
     TC 97000000 8 23 16,
     TC 97750000 8 42 29,
     TC 98000000 8 45 31,
     TC 99000000 8 22 15,
     TC 99750000 8 34 23]"
  apply (simp add: check_ref_def budget_eval)
  apply (simp only: check_eval cong: if_weak_cong)
  done

lemma table_rows_20:
  "list_all check_ref
    [TC 100000000 6 20 18,
     TC 100500000 6 19 17,
     TC 101000000 6 37 33,
     TC 101250000 8 21 14,
     TC 102000000 6 17 15,
     TC 102250000 6 25 22,
     TC 103000000 8 29 19,
     TC 104000000 8 37 24]"
  apply (simp add: check_ref_def budget_eval)
  apply (simp only: check_eval cong: if_weak_cong)
  done

lemma table_rows_21:
  "list_all check_ref
    [TC 105000000 8 28 18,
     TC 106000000 8 22 14,
     TC 107000000 8 46 29,
     TC 107214000 8 27 17,
     TC 108000000 8 24 15,
     TC 108108000 8 173 108,
     TC 109000000 6 23 19,
     TC 110000000 6 22 18]"
  apply (simp add: check_ref_def budget_eval)
  apply (simp only: check_eval cong: if_weak_cong)
  done

lemma table_rows_22:
  "list_all check_ref
    [TC 110013000 6 22 18,
     TC 110250000 8 49 30,
     TC 110500000 8 36 22,
     TC 111000000 8 23 14,
     TC 111264000 8 150 91,
     TC 111375000 8 33 20,
     TC 112000000 8 63 38,
     TC 112500000 8 25 15]"
  apply (simp add: check_ref_def budget_eval)
  apply (simp only: check_eval cong: if_weak_cong)
  done

lemma table_rows_23:
  "list_all check_ref
    [TC 113100000 8 57 34,
     TC 113309000 8 42 25,
     TC 114000000 8 27 16,
     TC 115000000 6 23 18,
     TC 116000000 8 43 25,
     TC 117000000 8 26 15,
     TC 117500000 8 40 23,
     TC 118000000 6 38 29]"
  apply (simp add: check_ref_def budget_eval)
  apply (simp only: check_eval cong: if_weak_cong)
  done

lemma table_rows_24:
  "list_all check_ref
    [TC 119000000 8 30 17,
     TC 119500000 8 46 26,
     TC 119651000 8 39 22,
     TC 120000000 8 32 18,
     TC 121000000 6 39 29,
     TC 121250000 6 31 23,
     TC 121750000 6 23 17,
     TC 122000000 6 42 31]"
  apply (simp add: check_ref_def budget_eval)
  apply (simp only: check_eval cong: if_weak_cong)
  done

lemma table_rows_25:
  "list_all check_ref
    [TC 122614000 6 30 22,
     TC 123000000 6 41 30,
     TC 123379000 6 37 27,
     TC 124000000 6 51 37,
     TC 125000000 6 25 18,
     TC 125250000 4 13 14,
     TC 125750000 4 27 29,
     TC 126000000 6 21 15]"
  apply (simp add: check_ref_def budget_eval)
  apply (simp only: check_eval cong: if_weak_cong)
  done

lemma table_rows_26:
  "list_all check_ref
    [TC 127000000 6 24 17,
     TC 127250000 6 41 29,
     TC 128000000 6 27 19,
     TC 129000000 6 43 30,
     TC 129859000 4 25 26,
     TC 130000000 6 26 18,
     TC 130250000 6 42 29,
     TC 131000000 6 32 22]"
  apply (simp add: check_ref_def budget_eval)
  apply (simp only: check_eval cong: if_weak_cong)
  done

lemma table_rows_27:
  "list_all check_ref
    [TC 131500000 6 38 26,
     TC 131850000 6 41 28,
     TC 132000000 6 22 15,
     TC 132750000 6 28 19,
     TC 133000000 6 34 23,
     TC 133330000 6 37 25,
     TC 134000000 6 61 41,
     TC 135000000 6 21 14]"
  apply (simp add: check_ref_def budget_eval)
  apply (simp only: check_eval cong: if_weak_cong)
  done

lemma table_rows_28:
  "list_all check_ref
    [TC 135250000 6 167 111,
     TC 136000000 6 62 41,
     TC 137000000 6 35 23,
     TC 138000000 6 23 15,
     TC 138500000 6 40 26,
     TC 138750000 6 37 24,
     TC 139000000 6 34 22,
     TC 139050000 6 34 22]"
  apply (simp add: check_ref_def budget_eval)
  apply (simp only: check_eval cong: if_weak_cong)
  done

lemma table_rows_29:
  "list_all check_ref
    [TC 139054000 6 34 22,
     TC 140000000 6 28 18,
     TC 141000000 6 36 23,
     TC 141500000 6 22 14,
     TC 142000000 6 30 19,
     TC 143000000 6 27 17,
     TC 143472000 4 17 16,
     TC 144000000 6 24 15]"
  apply (simp add: check_ref_def budget_eval)
  apply (simp only: check_eval cong: if_weak_cong)
  done

lemma table_rows_30:
  "list_all check_ref
    [TC 145000000 6 29 18,
     TC 146000000 6 47 29,
     TC 146250000 6 26 16,
     TC 147000000 6 49 30,
     TC 147891000 6 23 14,
     TC 148000000 6 23 14,
     TC 148250000 6 28 17,
     TC 148352000 4 100 91]"
  apply (simp add: check_ref_def budget_eval)
  apply (simp only: check_eval cong: if_weak_cong)
  done

lemma table_rows_31:
  "list_all check_ref
    [TC 148500000 6 33 20,
     TC 149000000 6 48 29,
     TC 150000000 6 25 15,
     TC 151000000 4 19 17,
     TC 152000000 6 27 16,
     TC 152280000 6 44 26,
     TC 153000000 6 34 20,
     TC 154000000 6 53 31]"
  apply (simp add: check_ref_def budget_eval)
  apply (simp only: check_eval cong: if_weak_cong)
  done

lemma table_rows_32:
  "list_all check_ref
    [TC 155000000 6 31 18,
     TC 155250000 6 50 29,
     TC 155750000 6 45 26,
     TC 156000000 6 26 15,
     TC 157000000 6 61 35,
     TC 157500000 6 28 16,
     TC 158000000 6 65 37,
     TC 158250000 6 44 25]"
  apply (simp add: check_ref_def budget_eval)
  apply (simp only: check_eval cong: if_weak_cong)
  done

lemma table_rows_33:
  "list_all check_ref
    [TC 159000000 6 53 30,
     TC 159500000 6 39 22,
     TC 160000000 6 32 18,
     TC 161000000 4 31 26,
     TC 162000000 4 18 15,
     TC 162162000 4 131 109,
     TC 162500000 4 53 44,
     TC 163000000 4 29 24]"
  apply (simp add: check_ref_def budget_eval)
  apply (simp only: check_eval cong: if_weak_cong)
  done

lemma table_rows_34:
  "list_all check_ref
    [TC 164000000 4 17 14,
     TC 165000000 4 22 18,
     TC 166000000 4 32 26,
     TC 167000000 4 26 21,
     TC 168000000 4 46 37,
     TC 169000000 4 104 83,
     TC 169128000 4 64 51,
     TC 169500000 4 39 31]"
  apply (simp add: check_ref_def budget_eval)
  apply (simp only: check_eval cong: if_weak_cong)
  done

lemma table_rows_35:
  "list_all check_ref
    [TC 170000000 4 34 27,
     TC 171000000 4 19 15,
     TC 172000000 4 51 40,
     TC 172750000 4 32 25,
     TC 172800000 4 32 25,
     TC 173000000 4 41 32,
     TC 174000000 4 49 38,
     TC 174787000 4 22 17]"
  apply (simp add: check_ref_def budget_eval)
  apply (simp only: check_eval cong: if_weak_cong)
  done

lemma table_rows_36:
  "list_all check_ref
    [TC 175000000 4 35 27,
     TC 176000000 4 30 23,
     TC 177000000 4 38 29,
     TC 178000000 4 29 22,
     TC 178500000 4 37 28,
     TC 179000000 4 53 40,
     TC 179500000 4 73 55,
     TC 180000000 4 20 15]"
  apply (simp add: check_ref_def budget_eval)
  apply (simp only: check_eval cong: if_weak_cong)
  done

lemma table_rows_37:
  "list_all check_ref
    [TC 181000000 4 55 41,
     TC 182000000 4 31 23,
     TC 183000000 4 42 31,
     TC 184000000 4 30 22,
     TC 184750000 4 26 19,
     TC 185000000 4 37 27,
     TC 186000000 4 51 37,
     TC 187000000 4 36 26]"
  apply (simp add: check_ref_def budget_eval)
  apply (simp only: check_eval cong: if_weak_cong)
  done

lemma table_rows_38:
  "list_all check_ref
    [TC 188000000 4 32 23,
     TC 189000000 4 21 15,
     TC 190000000 4 38 27,
     TC 190960000 4 41 29,
     TC 191000000 4 41 29,
     TC 192000000 4 27 19,
     TC 192250000 4 37 26,
     TC 193000000 4 20 14]"
  apply (simp add: check_ref_def budget_eval)
  apply (simp only: check_eval cong: if_weak_cong)
  done

lemma table_rows_39:
  "list_all check_ref
    [TC 193250000 4 53 37,
     TC 194000000 4 23 16,
     TC 194208000 4 23 16,
     TC 195000000 4 26 18,
     TC 196000000 4 45 31,
     TC 197000000 4 35 24,
     TC 197750000 4 41 28,
     TC 198000000 4 22 15]"
  apply (simp add: check_ref_def budget_eval)
  apply (simp only: check_eval cong: if_weak_cong)
  done

lemma table_rows_40:
  "list_all check_ref
    [TC 198500000 4 25 17,
     TC 199000000 4 28 19,
     TC 200000000 4 37 25,
     TC 201000000 4 61 41,
     TC 202000000 4 112 75,
     TC 202500000 4 21 14,
     TC 203000000 4 146 97,
     TC 204000000 4 62 41]"
  apply (simp add: check_ref_def budget_eval)
  apply (simp only: check_eval cong: if_weak_cong)
  done

lemma table_rows_41:
  "list_all check_ref
    [TC 204750000 4 44 29,
     TC 205000000 4 38 25,
     TC 206000000 4 29 19,
     TC 207000000 4 23 15,
     TC 207500000 4 40 26,
     TC 208000000 4 37 24,
     TC 208900000 4 48 31,
     TC 209000000 4 48 31]"
  apply (simp add: check_ref_def budget_eval)
  apply (simp only: check_eval cong: if_weak_cong)
  done

lemma table_rows_42:
  "list_all check_ref
    [TC 209250000 4 31 20,
     TC 210000000 4 28 18,
     TC 211000000 4 25 16,
     TC 212000000 4 22 14,
     TC 213000000 4 30 19,
     TC 213750000 4 38 24,
     TC 214000000 4 46 29,
     TC 214750000 4 35 22]"
  apply (simp add: check_ref_def budget_eval)
  apply (simp only: check_eval cong: if_weak_cong)
  done

lemma table_rows_43:
  "list_all check_ref
    [TC 215000000 4 43 27,
     TC 216000000 4 24 15,
     TC 217000000 4 37 23,
     TC 218000000 4 42 26,
     TC 218250000 4 42 26,
     TC 218750000 4 34 21,
     TC 219000000 4 47 29,
     TC 220000000 4 44 27]"
  apply (simp add: check_ref_def budget_eval)
  apply (simp only: check_eval cong: if_weak_cong)
  done

lemma table_rows_44:
  "list_all check_ref
    [TC 220640000 4 49 30,
     TC 220750000 4 36 22,
     TC 221000000 4 36 22,
     TC 222000000 4 23 14,
     TC 222525000 4 150 91,
     TC 222750000 4 33 20,
     TC 227000000 4 37 22,
     TC 230250000 4 29 17]"
  apply (simp add: check_ref_def budget_eval)
  apply (simp only: check_eval cong: if_weak_cong)
  done

lemma table_rows_45:
  "list_all check_ref
    [TC 233500000 4 38 22,
     TC 235000000 4 40 23,
     TC 238000000 4 30 17,
     TC 241500000 2 17 19,
     TC 245250000 2 20 22,
     TC 247750000 2 22 24,
     TC 253250000 2 15 16,
     TC 256250000 2 18 19]"
  apply (simp add: check_ref_def budget_eval)
  apply (simp only: check_eval cong: if_weak_cong)
  done

lemma table_rows_46:
  "list_all check_ref
    [TC 262500000 2 31 32,
     TC 267250000 2 66 67,
     TC 268500000 2 94 95,
     TC 270000000 2 14 14,
     TC 272500000 2 77 76,
     TC 273750000 2 57 56,
     TC 280750000 2 24 23,
     TC 281250000 2 23 22]"
  apply (simp add: check_ref_def budget_eval)
  apply (simp only: check_eval cong: if_weak_cong)
  done

lemma table_rows_47:
  "list_all check_ref
    [TC 286000000 2 17 16,
     TC 291750000 2 26 24,
     TC 296703000 2 100 91,
     TC 297000000 2 22 20,
     TC 298000000 2 21 19]"
  apply (simp add: check_ref_def budget_eval)
  apply (simp only: check_eval cong: if_weak_cong)
  done

lemma table_checked: "list_all check_ref wrpll_tmds_clock_table"
  using table_rows_1 table_rows_2 table_rows_3 table_rows_4 table_rows_5 table_rows_6 table_rows_7 table_rows_8 table_rows_9 table_rows_10 table_rows_11 table_rows_12 table_rows_13 table_rows_14 table_rows_15 table_rows_16 table_rows_17 table_rows_18 table_rows_19 table_rows_20 table_rows_21 table_rows_22 table_rows_23 table_rows_24 table_rows_25 table_rows_26 table_rows_27 table_rows_28 table_rows_29 table_rows_30 table_rows_31 table_rows_32 table_rows_33 table_rows_34 table_rows_35 table_rows_36 table_rows_37 table_rows_38 table_rows_39 table_rows_40 table_rows_41 table_rows_42 table_rows_43 table_rows_44 table_rows_45 table_rows_46 table_rows_47
  by (simp add: wrpll_tmds_clock_table_def)

lemma table_entries_ok: "ref \<in> set wrpll_tmds_clock_table \<Longrightarrow> entry_ok ref"
  using table_checked by (auto simp: list_all_iff intro: check_ref_sound)

text \<open>
  C1, as amended: the reference table has 373 entries (not 339), and for every one of
  them the divider search applied to its frequency returns exactly its triplet, all three
  components equal; among them \<open>19750000 \<rightarrow> (p = 38, n2 = 25, r2 = 18)\<close>,
  \<open>27000000 \<rightarrow> (p = 30, n2 = 21, r2 = 14)\<close>, \<open>108000000 \<rightarrow> (p = 8, n2 = 24, r2 = 15)\<close> and
  \<open>270000000 \<rightarrow> (p = 2, n2 = 14, r2 = 14)\<close>.
\<close>

theorem table_reproduced:
  "length wrpll_tmds_clock_table = 373 \<and>
   (\<forall>ref\<in>set wrpll_tmds_clock_table.
      wrpll_compute_rnp (sint (tc_clock ref)) =
        \<lparr>rnp_p = ucast (tc_p ref), rnp_n2 = ucast (tc_n2 ref), rnp_r2 = ucast (tc_r2 ref)\<rparr>) \<and>
   {TC 19750000 38 25 18, TC 27000000 30 21 14, TC 108000000 8 24 15, TC 270000000 2 14 14}
     \<subseteq> set wrpll_tmds_clock_table \<and>
   wrpll_compute_rnp 19750000 = \<lparr>rnp_p = 38, rnp_n2 = 25, rnp_r2 = 18\<rparr> \<and>
   wrpll_compute_rnp 27000000 = \<lparr>rnp_p = 30, rnp_n2 = 21, rnp_r2 = 14\<rparr> \<and>
   wrpll_compute_rnp 108000000 = \<lparr>rnp_p = 8, rnp_n2 = 24, rnp_r2 = 15\<rparr> \<and>
   wrpll_compute_rnp 270000000 = \<lparr>rnp_p = 2, rnp_n2 = 14, rnp_r2 = 14\<rparr>"
proof -
  have len: "length wrpll_tmds_clock_table = 373"
    by (simp add: wrpll_tmds_clock_table_def)
  have mem: "{TC 19750000 38 25 18, TC 27000000 30 21 14, TC 108000000 8 24 15,
      TC 270000000 2 14 14} \<subseteq> set wrpll_tmds_clock_table"
    by (simp add: wrpll_tmds_clock_table_def)
  have all: "\<forall>ref\<in>set wrpll_tmds_clock_table.
      wrpll_compute_rnp (sint (tc_clock ref)) =
        \<lparr>rnp_p = ucast (tc_p ref), rnp_n2 = ucast (tc_n2 ref), rnp_r2 = ucast (tc_r2 ref)\<rparr>"
    using table_entries_ok by (simp add: entry_ok_def)
  have "entry_ok (TC 19750000 38 25 18)" "entry_ok (TC 27000000 30 21 14)"
    "entry_ok (TC 108000000 8 24 15)" "entry_ok (TC 270000000 2 14 14)"
    using mem by (auto intro: table_entries_ok)
  then have "wrpll_compute_rnp 19750000 = \<lparr>rnp_p = 38, rnp_n2 = 25, rnp_r2 = 18\<rparr>"
    "wrpll_compute_rnp 27000000 = \<lparr>rnp_p = 30, rnp_n2 = 21, rnp_r2 = 14\<rparr>"
    "wrpll_compute_rnp 108000000 = \<lparr>rnp_p = 8, rnp_n2 = 24, rnp_r2 = 15\<rparr>"
    "wrpll_compute_rnp 270000000 = \<lparr>rnp_p = 2, rnp_n2 = 14, rnp_r2 = 14\<rparr>"
    by (simp_all add: entry_ok_def)
  with len mem all show ?thesis by blast
qed

theorem table_reproduced_witness:
  "TC 298000000 2 21 19 \<in> set wrpll_tmds_clock_table \<and>
   wrpll_compute_rnp 298000000 = \<lparr>rnp_p = 2, rnp_n2 = 21, rnp_r2 = 19\<rparr>"
proof -
  have m: "TC 298000000 2 21 19 \<in> set wrpll_tmds_clock_table"
    by (simp add: wrpll_tmds_clock_table_def)
  from table_reproduced have "\<forall>ref\<in>set wrpll_tmds_clock_table.
      wrpll_compute_rnp (sint (tc_clock ref)) =
        \<lparr>rnp_p = ucast (tc_p ref), rnp_n2 = ucast (tc_n2 ref), rnp_r2 = ucast (tc_r2 ref)\<rparr>"
    by blast
  from this [rule_format, OF m] m show ?thesis by simp
qed

text \<open>C1, as stated, counts 339 entries; the table of the source has 373.\<close>

theorem table_has_not_339_entries: "length wrpll_tmds_clock_table \<noteq> 339"
  by (simp add: wrpll_tmds_clock_table_def)

end
